theory Spec2Isabelle
  imports Main
begin

section \<open>The command line (\<open>struct CommandLine\<close>)\<close>

text \<open>
  \<open>struct CommandLine\<close> of \<open>smallsh.c\<close>: a dynamic array of C strings. A \<open>char*\<close> is a
  \<open>string option\<close> (\<open>None\<close> is the null pointer), the allocated array \<open>arr\<close> is the list
  of its cells. The field \<open>size\<close> of the source is \<open>size_cl\<close> here, since \<open>size\<close> is a
  constant of HOL. The counters are C \<open>int\<close>s, written as unbounded integers: doubling
  the capacity leaves the range of \<open>int\<close> only beyond \<open>2^30\<close> stored words.
\<close>

record CommandLine =
  capacity :: int
  size_cl :: int
  bg :: int
  inputFile :: "string option"
  outputFile :: "string option"
  arr :: "string option list"

text \<open>
  \<open>initCommandLine\<close> (lines 45-57): \<open>malloc\<close> of \<open>capacity\<close> cells, each set to \<open>NULL\<close>.
  A negative capacity makes the allocation fail and the \<open>assert\<close> abort: \<open>None\<close>.
\<close>

definition initCommandLine :: "int \<Rightarrow> CommandLine option" where
  "initCommandLine cap =
     (if cap < 0 then None
      else Some \<lparr>capacity = cap, size_cl = 0, bg = 0, inputFile = None, outputFile = None,
                 arr = replicate (nat cap) None\<rparr>)"

text \<open>
  The growth step of \<open>addCommandLine\<close> (lines 72-87): a zero-initialised array of
  \<open>2 * capacity\<close> cells (\<open>calloc\<close>) receives copies of the first \<open>size\<close> strings. Copying
  a cell that is \<open>NULL\<close> or lies outside the old array is a crash in C (\<open>strlen\<close> of a bad
  pointer): \<open>None\<close>.
\<close>

definition growCommandLine :: "CommandLine \<Rightarrow> CommandLine option" where
  "growCommandLine r =
     (if size_cl r = capacity r - 1
      then (if 0 \<le> size_cl r \<and> nat (size_cl r) \<le> length (arr r)
               \<and> None \<notin> set (take (nat (size_cl r)) (arr r))
            then Some (r\<lparr>arr := take (nat (size_cl r)) (arr r)
                              @ replicate (nat (2 * capacity r) - nat (size_cl r)) None,
                         capacity := 2 * capacity r\<rparr>)
            else None)
      else Some r)"

text \<open>
  \<open>addCommandLine\<close> (lines 70-93): grow if \<open>size == capacity - 1\<close>, then store a copy of
  the string at index \<open>size\<close> and increment \<open>size\<close>. A store outside the allocated array
  is undefined behaviour in C: \<open>None\<close>.
\<close>

definition addCommandLine :: "CommandLine \<Rightarrow> string \<Rightarrow> CommandLine option" where
  "addCommandLine r str =
     (case growCommandLine r of
        None \<Rightarrow> None
      | Some r1 \<Rightarrow>
          (if 0 \<le> size_cl r1 \<and> nat (size_cl r1) < length (arr r1)
           then Some (r1\<lparr>arr := (arr r1)[nat (size_cl r1) := Some str],
                         size_cl := size_cl r1 + 1\<rparr>)
           else None))"

text \<open>A sequence of \<open>addCommandLine\<close> calls, stopping at the first crash.\<close>

fun addAll :: "CommandLine option \<Rightarrow> string list \<Rightarrow> CommandLine option" where
  "addAll None strs = None"
| "addAll (Some r) [] = Some r"
| "addAll (Some r) (s # strs) = addAll (addCommandLine r s) strs"

text \<open>
  The cell \<open>arr[i]\<close> read as the program-image-replacement call reads it: \<open>None\<close> outside
  the allocated array, otherwise the cell (itself a pointer, \<open>None\<close> for \<open>NULL\<close>).
\<close>

definition arrAt :: "CommandLine \<Rightarrow> int \<Rightarrow> string option option" where
  "arrAt r i = (if 0 \<le> i \<and> nat i < length (arr r) then Some (arr r ! nat i) else None)"

text \<open>
  The end of \<open>parseLine\<close> (lines 435-458): a last word \<open>&\<close> is taken off the array (its
  cell set to \<open>NULL\<close>, \<open>size\<close> decremented), \<open>bg\<close> is set, and a redirection left unset
  becomes the null device. Comparing a null or missing last cell is a crash: \<open>None\<close>.
\<close>

definition backgroundSuffix :: "CommandLine \<Rightarrow> CommandLine option" where
  "backgroundSuffix c =
     (if size_cl c > 0
      then (case arrAt c (size_cl c - 1) of
              Some (Some a) \<Rightarrow>
                (if a = ''&''
                 then Some (c\<lparr>bg := 1,
                              arr := (arr c)[nat (size_cl c - 1) := None],
                              size_cl := size_cl c - 1,
                              inputFile := (case inputFile c of
                                              None \<Rightarrow> Some ''/dev/null''
                                            | Some f \<Rightarrow> Some f),
                              outputFile := (case outputFile c of
                                               None \<Rightarrow> Some ''/dev/null''
                                             | Some f \<Rightarrow> Some f)\<rparr>)
                 else Some c)
            | _ \<Rightarrow> None)
      else Some c)"

text \<open>The representation invariant of a command line under construction.\<close>

definition clInv :: "CommandLine \<Rightarrow> bool" where
  "clInv r \<longleftrightarrow>
     0 \<le> size_cl r \<and> size_cl r < capacity r \<and> int (length (arr r)) = capacity r
     \<and> None \<notin> set (take (nat (size_cl r)) (arr r))
     \<and> drop (nat (size_cl r)) (arr r) = replicate (nat (capacity r) - nat (size_cl r)) None"

section \<open>The registry of child processes (\<open>struct ChildrenPids\<close>)\<close>

text \<open>
  \<open>struct Link\<close> and \<open>struct ChildrenPids\<close>: a singly linked list of records with a
  separately kept count. The \<open>next\<close> pointers are the list structure; \<open>size\<close> and
  \<open>list\<close> of the source are \<open>size_cp\<close> and \<open>list_cp\<close>. A process identifier
  (\<open>pid_t\<close>) is an \<open>int\<close>.
\<close>

record Link =
  pidNo :: int
  command :: CommandLine
  builtIn :: int

record ChildrenPids =
  size_cp :: int
  list_cp :: "Link list"

definition initLink :: "int \<Rightarrow> CommandLine \<Rightarrow> int \<Rightarrow> Link" where
  "initLink p c b = \<lparr>pidNo = p, command = c, builtIn = b\<rparr>"

definition initChildrenPids :: ChildrenPids where
  "initChildrenPids = \<lparr>size_cp = 0, list_cp = []\<rparr>"

text \<open>
  \<open>addChildrenPids\<close> (lines 215-231): with \<open>size == 0\<close> the new link becomes the list;
  otherwise the list is walked from its head to its last link, which dereferences a null
  head when the list is empty although \<open>size\<close> is not 0 (a crash: \<open>None\<close>).
\<close>

definition addChildrenPids ::
  "ChildrenPids \<Rightarrow> int \<Rightarrow> CommandLine \<Rightarrow> int \<Rightarrow> ChildrenPids option" where
  "addChildrenPids children p c b =
     (if size_cp children = 0
      then Some (children\<lparr>list_cp := [initLink p c b], size_cp := size_cp children + 1\<rparr>)
      else (case list_cp children of
              [] \<Rightarrow> None
            | l # ls \<Rightarrow>
                Some (children\<lparr>list_cp := (l # ls) @ [initLink p c b],
                                size_cp := size_cp children + 1\<rparr>)))"

text \<open>The search loop of \<open>inChildrenPids\<close> (lines 249-256).\<close>

fun inLinks :: "Link list \<Rightarrow> int \<Rightarrow> int" where
  "inLinks [] num = 0"
| "inLinks (l # ls) num = (if pidNo l = num then 1 else inLinks ls num)"

definition inChildrenPids :: "ChildrenPids \<Rightarrow> int \<Rightarrow> int" where
  "inChildrenPids children num =
     (if size_cp children = 0 then 0 else inLinks (list_cp children) num)"

text \<open>
  The splice loop of \<open>deleteChildrenPids\<close> (lines 285-295), started at a link \<open>temp\<close>
  whose own identifier does not match: the first link behind it that matches is cut out.
\<close>

fun unlinkAfter :: "Link list \<Rightarrow> int \<Rightarrow> Link list" where
  "unlinkAfter (t # n # rest) num =
     (if pidNo n = num then t # rest else t # unlinkAfter (n # rest) num)"
| "unlinkAfter ls num = ls"

text \<open>
  \<open>deleteChildrenPids\<close> (lines 272-300) returns its result and the registry after the
  call. The empty-list case after a positive search cannot occur (the search found a link).
\<close>

definition deleteChildrenPids :: "ChildrenPids \<Rightarrow> int \<Rightarrow> int \<times> ChildrenPids" where
  "deleteChildrenPids children num =
     (if inChildrenPids children num = 0 then (0, children)
      else (case list_cp children of
              [] \<Rightarrow> (0, children)
            | l # ls \<Rightarrow>
                (1, children\<lparr>list_cp := (if pidNo l = num then ls
                                           else unlinkAfter (l # ls) num),
                              size_cp := size_cp children - 1\<rparr>)))"

text \<open>A sequence of registry operations, run from a registry; each remove's identifier
  and return value are collected in order.\<close>

datatype regOp = Add int CommandLine int | Remove int

fun runOps :: "ChildrenPids \<Rightarrow> regOp list \<Rightarrow> (ChildrenPids \<times> (int \<times> int) list) option" where
  "runOps c [] = Some (c, [])"
| "runOps c (Add p cmd b # ops) =
     (case addChildrenPids c p cmd b of
        None \<Rightarrow> None
      | Some c1 \<Rightarrow> runOps c1 ops)"
| "runOps c (Remove p # ops) =
     (case deleteChildrenPids c p of
        (r, c1) \<Rightarrow>
          (case runOps c1 ops of
             None \<Rightarrow> None
           | Some (c2, rets) \<Rightarrow> Some (c2, (p, r) # rets)))"

fun addedPids :: "regOp list \<Rightarrow> int list" where
  "addedPids [] = []"
| "addedPids (Add p cmd b # ops) = p # addedPids ops"
| "addedPids (Remove p # ops) = addedPids ops"

text \<open>The identifiers a registry holds, and its consistency: the count is the length of
  the list.\<close>

definition pidsOf :: "ChildrenPids \<Rightarrow> int list" where
  "pidsOf c = map pidNo (list_cp c)"

definition regInv :: "ChildrenPids \<Rightarrow> bool" where
  "regInv c \<longleftrightarrow> size_cp c = int (length (list_cp c))"

section \<open>Decoding a termination descriptor\<close>

text \<open>
  The wait-status macros of \<open>sys/wait.h\<close> are the C library's, not the repository's.
  They are written here as glibc defines them on a status of type \<open>int\<close>:
  \<open>WTERMSIG(s) = s & 0x7f\<close>, \<open>WEXITSTATUS(s) = (s & 0xff00) >> 8\<close>,
  \<open>WIFEXITED(s) = (WTERMSIG(s) == 0)\<close> and
  \<open>WIFSIGNALED(s) = (((signed char) ((s & 0x7f) + 1) >> 1) > 0)\<close>, the conversion to
  \<open>signed char\<close> written out. \<open>W_EXITCODE(ret, sig) = ret << 8 | sig\<close> builds the status of
  a child, and \<open>0x80\<close> is the core-dump flag of a child killed by a signal.
\<close>

unbundle bit_operations_syntax

definition WTERMSIG :: "int \<Rightarrow> int" where
  "WTERMSIG s = s AND 127"

definition WEXITSTATUS :: "int \<Rightarrow> int" where
  "WEXITSTATUS s = drop_bit 8 (s AND 65280)"

definition WIFEXITED :: "int \<Rightarrow> int" where
  "WIFEXITED s = (if WTERMSIG s = 0 then 1 else 0)"

definition signedChar :: "int \<Rightarrow> int" where
  "signedChar v = (if v mod 256 < 128 then v mod 256 else v mod 256 - 256)"

definition WIFSIGNALED :: "int \<Rightarrow> int" where
  "WIFSIGNALED s = (if drop_bit 1 (signedChar ((s AND 127) + 1)) > 0 then 1 else 0)"

definition W_EXITCODE :: "int \<Rightarrow> int \<Rightarrow> int" where
  "W_EXITCODE ret sig = push_bit 8 ret OR sig"

text \<open>The two termination shapes: a child that exited with code \<open>c\<close>, and a child killed
  by signal \<open>s\<close>, with or without a core dump.\<close>

definition exitedWithCode :: "int \<Rightarrow> int" where
  "exitedWithCode c = W_EXITCODE c 0"

definition signaledWith :: "int \<Rightarrow> bool \<Rightarrow> int" where
  "signaledWith s core = W_EXITCODE 0 s OR (if core then 128 else 0)"

text \<open>
  The four \<open>int\<close> variables \<open>decipherExitStatus\<close> writes through its pointer arguments.
  The function (lines 659-676) takes their values before the call and returns their values
  after it: a status of neither shape leaves them as they were.
\<close>

record decoded =
  exited :: int
  exitStatus :: int
  signaled :: int
  termSignal :: int

definition decipherExitStatus :: "int \<Rightarrow> decoded \<Rightarrow> decoded" where
  "decipherExitStatus childExitMethod d =
     (if WIFEXITED childExitMethod \<noteq> 0
      then \<lparr>exited = 1, exitStatus = WEXITSTATUS childExitMethod, signaled = 0, termSignal = 0\<rparr>
      else if WIFSIGNALED childExitMethod \<noteq> 0
      then \<lparr>exited = 0, exitStatus = 0, signaled = 1, termSignal = WTERMSIG childExitMethod\<rparr>
      else d)"

section \<open>Observable actions\<close>

text \<open>
  What the interpreter does to the outside world is recorded as a trace of events, in the
  order of the calls: \<open>printf\<close> followed by \<open>fflush\<close> (the format string and its
  arguments), the raw \<open>write\<close> of the signal handler (the file descriptor and the bytes),
  \<open>perror\<close>, \<open>kill\<close>, the blocking and the non-blocking \<open>waitpid\<close>, \<open>sigprocmask\<close>
  (the operation and the signal set), \<open>chdir\<close>, and in a child \<open>sigaction\<close> and the call
  of \<open>execHandle\<close>.
\<close>

datatype signal = SIGINT | SIGTSTP | SIGTERM

datatype how = SIG_BLOCK | SIG_UNBLOCK

datatype disposition = SIG_DFL | SIG_IGN

datatype parg = ArgInt int | ArgStrerror int

datatype event =
    Printf string "parg list"
  | WriteFd int string
  | Perror string
  | KillCall int signal
  | WaitBlocking int
  | WaitNoHang int
  | Sigprocmask how "signal list"
  | Chdir string
  | Sigaction signal disposition
  | ExecHandle CommandLine

fun isPerror :: "event \<Rightarrow> bool" where
  "isPerror (Perror m) = True"
| "isPerror e = False"

fun isWaitBlocking :: "event \<Rightarrow> bool" where
  "isWaitBlocking (WaitBlocking p) = True"
| "isWaitBlocking e = False"

fun isKillCall :: "event \<Rightarrow> bool" where
  "isKillCall (KillCall p sg) = True"
| "isKillCall e = False"

section \<open>The mode flag and its signal handler\<close>

text \<open>
  The bytes \<open>write(fd, literal, n)\<close> sends: the first \<open>n\<close> bytes of the literal's storage,
  which ends with a zero byte.
\<close>

definition literalBytes :: "string \<Rightarrow> nat \<Rightarrow> string" where
  "literalBytes lit n = take n (lit @ [CHR 0x00])"

definition enterNotice :: string where
  "enterNotice = literalBytes ''Enter foreground only mode (& is ignored)\<newline>: '' 45"

definition exitNotice :: string where
  "exitNotice = literalBytes ''Exit foreground only mode\<newline>: '' 28"

text \<open>
  \<open>parentCatchSIGTSTP\<close> (lines 630-645) on the global \<open>BGAllowed\<close>: the new value of the
  flag and the one \<open>write\<close> to standard output (descriptor 1).
\<close>

definition parentCatchSIGTSTP :: "int \<Rightarrow> int \<times> event list" where
  "parentCatchSIGTSTP bgAllowed =
     (if bgAllowed = 1 then (0, [WriteFd 1 enterNotice]) else (1, [WriteFd 1 exitNotice]))"

section \<open>Shutdown: \<open>exitHandle\<close>\<close>

definition terminatedNotice :: string where
  "terminatedNotice = ''Process %d terminated by SIGTERM\<newline>''"

definition deletedNotice :: string where
  "deletedNotice = ''Sucessfully deleted info for this process\<newline>''"

definition errorDeletingNotice :: string where
  "errorDeletingNotice = ''Error deleting info for this process\<newline>''"

text \<open>
  One round of the loop of \<open>exitHandle\<close> (lines 519-542). \<open>killRet\<close> is the operating
  system's answer to \<open>kill(pid, SIGTERM)\<close> at attempt \<open>i\<close>. Reading the head of an empty
  list dereferences a null pointer: \<open>None\<close>.
\<close>

definition exitRound ::
  "(nat \<Rightarrow> int \<Rightarrow> int) \<Rightarrow> nat \<Rightarrow> ChildrenPids \<Rightarrow> (ChildrenPids \<times> event list) option" where
  "exitRound killRet i children =
     (case list_cp children of
        [] \<Rightarrow> None
      | temp # rest \<Rightarrow>
          (if killRet i (pidNo temp) = 0
           then (case deleteChildrenPids children (pidNo temp) of
                   (deleted, c1) \<Rightarrow>
                     Some (c1, [KillCall (pidNo temp) SIGTERM,
                                Printf terminatedNotice [ArgInt (pidNo temp)],
                                (if deleted = 0 then Printf deletedNotice []
                                 else Printf errorDeletingNotice [])]))
           else Some (children, [KillCall (pidNo temp) SIGTERM, Perror ''Exit Failure: ''])))"

text \<open>The loop \<open>while (children->size != 0 && i < 50)\<close> from counter \<open>i\<close>.\<close>

function exitLoop ::
  "(nat \<Rightarrow> int \<Rightarrow> int) \<Rightarrow> nat \<Rightarrow> ChildrenPids \<Rightarrow> (ChildrenPids \<times> event list) option" where
  "exitLoop killRet i children =
     (if size_cp children \<noteq> 0 \<and> i < 50
      then (case exitRound killRet i children of
              None \<Rightarrow> None
            | Some (c1, ev) \<Rightarrow>
                (case exitLoop killRet (Suc i) c1 of
                   None \<Rightarrow> None
                 | Some (c2, ev2) \<Rightarrow> Some (c2, ev @ ev2)))
      else Some (children, []))"
  by pat_completeness auto
termination
  by (relation "measure (\<lambda>(killRet, i, children). 50 - i)") auto
declare exitLoop.simps [simp del]

definition exitHandle ::
  "(nat \<Rightarrow> int \<Rightarrow> int) \<Rightarrow> ChildrenPids \<Rightarrow> (ChildrenPids \<times> event list) option" where
  "exitHandle killRet children = exitLoop killRet 0 children"

section \<open>The background sweep: \<open>checkBGChildren\<close>\<close>

text \<open>
  The locals of \<open>checkBGChildren\<close> that live across the rounds of its loop:
  \<open>childExitMethod\<close> and the four decoded variables. They are not initialised, so their
  first values are a parameter.
\<close>

record bgLocals =
  childExitMethod :: int
  dec :: decoded

definition finishedNotice :: string where
  "finishedNotice = ''Background process %d has finished: ''"

text \<open>The notices after decoding in the sweep (lines 715-732).\<close>

definition sweepNotices :: "decoded \<Rightarrow> event list" where
  "sweepNotices d =
     (if exited d \<noteq> 0
      then (if exitStatus d = 0 then [Printf ''exit value 0\<newline>'' []] else [])
           @ (if exitStatus d \<noteq> 0
              then [Printf ''exited value %d\<newline>'' [ArgInt (exitStatus d)]] else [])
      else if signaled d \<noteq> 0
      then [Printf ''terminated by signal %d\<newline>'' [ArgInt (termSignal d)]]
      else [])"

text \<open>
  One round of the loop (lines 707-734) for the array entry \<open>p\<close>. \<open>waitNoHang p\<close> is what
  \<open>waitpid(p, &childExitMethod, WNOHANG)\<close> returns and the status it writes, if it
  writes one: \<open>(0, None)\<close> for a child still running, \<open>(p, Some st)\<close> for a finished one.
\<close>

definition sweepRound ::
  "(int \<Rightarrow> int \<times> int option) \<Rightarrow> int \<Rightarrow> ChildrenPids \<Rightarrow> bgLocals
     \<Rightarrow> ChildrenPids \<times> bgLocals \<times> event list" where
  "sweepRound waitNoHang p children loc =
     (case waitNoHang p of
        (currPid, written) \<Rightarrow>
          (if currPid \<noteq> 0
           then (let c1 = snd (deleteChildrenPids children currPid);
                     st = (case written of None \<Rightarrow> childExitMethod loc | Some v \<Rightarrow> v);
                     d = decipherExitStatus st (dec loc)
                 in (c1, \<lparr>childExitMethod = st, dec = d\<rparr>,
                     [WaitNoHang p, Printf finishedNotice [ArgInt currPid]] @ sweepNotices d))
           else (children, loc, [WaitNoHang p])))"

text \<open>
  The loop \<open>for (i = 0; i < children->size; i++)\<close> over the array \<open>bgChildren\<close>. The first
  argument is the part of the array from index \<open>i\<close> on; the bound \<open>children->size\<close> is read
  from the registry as it is at each test. Reading past the end of the array is \<open>None\<close>.
\<close>

fun sweepLoop ::
  "(int \<Rightarrow> int \<times> int option) \<Rightarrow> int list \<Rightarrow> int \<Rightarrow> ChildrenPids \<Rightarrow> bgLocals
     \<Rightarrow> (ChildrenPids \<times> bgLocals \<times> event list) option" where
  "sweepLoop waitNoHang [] i children loc =
     (if i < size_cp children then None else Some (children, loc, []))"
| "sweepLoop waitNoHang (p # ps) i children loc =
     (if i < size_cp children
      then (case sweepRound waitNoHang p children loc of
              (c1, loc1, ev) \<Rightarrow>
                (case sweepLoop waitNoHang ps (i + 1) c1 loc1 of
                   None \<Rightarrow> None
                 | Some (c2, loc2, ev2) \<Rightarrow> Some (c2, loc2, ev @ ev2)))
      else Some (children, loc, []))"

text \<open>
  \<open>checkBGChildren\<close> (lines 688-737): the \<open>assert\<close> on a non-zero \<open>size\<close>, the snapshot of
  the identifiers into a zero-initialised array of \<open>size\<close> entries (writing past it when
  the list is longer is \<open>None\<close>), then the loop.
\<close>

definition snapshot :: "ChildrenPids \<Rightarrow> int list" where
  "snapshot children =
     pidsOf children @ replicate (nat (size_cp children) - length (list_cp children)) 0"

definition checkBGChildren ::
  "(int \<Rightarrow> int \<times> int option) \<Rightarrow> ChildrenPids \<Rightarrow> bgLocals
     \<Rightarrow> (ChildrenPids \<times> bgLocals \<times> event list) option" where
  "checkBGChildren waitNoHang children loc0 =
     (if size_cp children = 0 then None
      else if size_cp children < int (length (list_cp children)) then None
      else sweepLoop waitNoHang (snapshot children) 0 children loc0)"

section \<open>The control loop: one round of \<open>main\<close>\<close>

text \<open>
  The state of the interpreter between two rounds of the loop of \<open>main\<close>: the registry,
  \<open>lastFGExitMethod\<close>, the global \<open>BGAllowed\<close>, \<open>keepGoing\<close>, and the four decoded
  variables of \<open>main\<close> (\<open>exited\<close>, \<open>exitStatus\<close>, \<open>signaled\<close>, \<open>termSignal\<close>), which are
  declared outside the loop.
\<close>

record shell =
  children :: ChildrenPids
  lastFGExitMethod :: int
  BGAllowed :: int
  keepGoing :: int
  fgDecoded :: decoded

text \<open>
  What the operating system answers during one round: the result of \<open>fork\<close>; the status
  the blocking \<open>waitpid\<close> writes (\<open>None\<close> when it fails and writes none); the answers of
  the non-blocking \<open>waitpid\<close> and of \<open>kill\<close>; the results of \<open>sigemptyset\<close>,
  \<open>sigaddset\<close> and the two \<open>sigprocmask\<close> calls; the result of \<open>chdir\<close>; the text
  \<open>sprintf\<close> makes of \<open>getenv("HOME")\<close>; and the indeterminate first values of the locals of
  \<open>checkBGChildren\<close>.
\<close>

record env =
  forkRet :: int
  waitBlock :: "int \<Rightarrow> int option"
  waitNoHang :: "int \<Rightarrow> int \<times> int option"
  killRet :: "nat \<Rightarrow> int \<Rightarrow> int"
  sigemptysetRet :: int
  sigaddsetRet :: int
  sigblockRet :: int
  sigunblockRet :: int
  chdirRet :: int
  homeDir :: string
  sweepLocals :: bgLocals

text \<open>
  How a round ends: the loop goes on with a new state; the process leaves through
  \<open>exit\<close>; it is killed by \<open>abort\<close>; it is the forked child, which never comes back
  from \<open>execHandle\<close>; or it crashes on a bad pointer.
\<close>

datatype outcome =
    Continue shell "event list"
  | ExitCalled int "event list"
  | Aborted "event list"
  | ChildProcess "event list"
  | Crashed

fun withPrefix :: "event list \<Rightarrow> outcome \<Rightarrow> outcome" where
  "withPrefix pre (Continue s ev) = Continue s (pre @ ev)"
| "withPrefix pre (ExitCalled n ev) = ExitCalled n (pre @ ev)"
| "withPrefix pre (Aborted ev) = Aborted (pre @ ev)"
| "withPrefix pre (ChildProcess ev) = ChildProcess (pre @ ev)"
| "withPrefix pre Crashed = Crashed"

text \<open>\<open>cdHandle\<close> (lines 479-500); a path that does not fit the 1024-byte buffer is
  \<open>None\<close>, as is a null \<open>arr[1]\<close>.\<close>

definition cdHandle :: "env \<Rightarrow> CommandLine \<Rightarrow> event list option" where
  "cdHandle e c =
     (let path = (if size_cl c = 1 then Some (homeDir e)
                  else if size_cl c \<ge> 2
                  then (case arrAt c 1 of Some (Some a) \<Rightarrow> Some a | _ \<Rightarrow> None)
                  else Some [])
      in case path of
           None \<Rightarrow> None
         | Some pth \<Rightarrow>
             (if length pth \<ge> 1024 then None
              else Some ([Chdir pth] @ (if chdirRet e = -1 then [Perror ''cd error''] else []))))"

text \<open>\<open>statusHandle\<close> (lines 554-569).\<close>

definition statusHandle :: "int \<Rightarrow> event list" where
  "statusHandle exitMethod =
     (if WIFEXITED exitMethod \<noteq> 0
      then [Printf ''exit value %d\<newline>''
              [ArgInt (if WEXITSTATUS exitMethod \<noteq> 0 then 1 else WEXITSTATUS exitMethod)]]
      else if WIFSIGNALED exitMethod \<noteq> 0
      then [Printf ''terminated by signal %d\<newline>'' [ArgInt (WTERMSIG exitMethod)]]
      else [])"

text \<open>The classification of the first word (lines 788-805).\<close>

definition procTypeOf :: "string \<Rightarrow> int" where
  "procTypeOf a0 =
     (if a0 = ''cd'' then 1 else if a0 = ''status'' then 2 else if a0 = ''exit'' then 3 else 0)"

text \<open>The decision on background processing (lines 819-826).\<close>

definition decideBackground :: "int \<Rightarrow> int \<Rightarrow> CommandLine \<Rightarrow> CommandLine" where
  "decideBackground procType bgAllowed commands =
     (if procType \<noteq> 0 then commands\<lparr>bg := 0\<rparr>
      else if bgAllowed = 0 then commands\<lparr>bg := 0\<rparr>
      else commands)"

definition startsNotice :: string where
  "startsNotice = ''Background process %d starts\<newline>''"

definition fgSignalNotice :: string where
  "fgSignalNotice = ''Foreground process %d is terminated by signal %d\<newline>''"

text \<open>The signal set \<open>toBlock\<close> after \<open>sigemptyset\<close> and \<open>sigaddset\<close> (lines 866-870).\<close>

definition toBlock :: "env \<Rightarrow> signal list" where
  "toBlock e = (if sigaddsetRet e = -1 then [] else [SIGTSTP])"

text \<open>The notices after decoding in the foreground path (lines 889-904).\<close>

definition fgNotices :: "int \<Rightarrow> decoded \<Rightarrow> event list" where
  "fgNotices spawnPid d =
     (if exited d \<noteq> 0
      then (if exitStatus d \<noteq> 0
            then [Printf ''Error: %s\<newline>'' [ArgStrerror (exitStatus d)]] else [])
      else if signaled d \<noteq> 0
      then [Printf fgSignalNotice [ArgInt spawnPid, ArgInt (termSignal d)]]
      else [])"

text \<open>
  The foreground wait (lines 863-905). \<open>childExitMethod\<close> starts as \<open>-5\<close> (line 787) and
  keeps that value when the blocking \<open>waitpid\<close> writes no status.
\<close>

definition foregroundWait :: "env \<Rightarrow> shell \<Rightarrow> int \<Rightarrow> shell \<times> event list" where
  "foregroundWait e s spawnPid =
     (let st = (case waitBlock e spawnPid of None \<Rightarrow> -5 | Some v \<Rightarrow> v);
          c1 = snd (deleteChildrenPids (children s) spawnPid);
          d = decipherExitStatus st (fgDecoded s)
      in (s\<lparr>children := c1, lastFGExitMethod := st, fgDecoded := d\<rparr>,
          (if sigemptysetRet e = -1 then [Perror ''Failed to set sigset_t toBlock''] else [])
          @ (if sigaddsetRet e = -1
             then [Perror ''Failed to add SIGTSTP to sigset_t toBlock''] else [])
          @ [Sigprocmask SIG_BLOCK (toBlock e)]
          @ (if sigblockRet e \<noteq> 0
             then [Perror ''SIGTSTP is not blocked in foreground child process''] else [])
          @ [WaitBlocking spawnPid]
          @ [Sigprocmask SIG_UNBLOCK (toBlock e)]
          @ (if sigunblockRet e \<noteq> 0 then [Perror ''SIGTSTP is not unblocked''] else [])
          @ fgNotices spawnPid d))"

text \<open>The child after \<open>fork\<close> (lines 836-849).\<close>

definition childProcess :: "CommandLine \<Rightarrow> event list" where
  "childProcess commands =
     (if bg commands = 0 then [Sigaction SIGINT SIG_DFL] else [])
     @ [Sigaction SIGTSTP SIG_IGN, ExecHandle commands]"

text \<open>
  The parent after \<open>fork\<close> (lines 850-906): registration (the fourth argument of
  \<open>addChildrenPids\<close> is \<open>commands->bg\<close>), the \<open>abort\<close> at \<open>MAXCHILDREN = 50\<close>, the
  notice of a background start, and the foreground wait.
\<close>

definition parentProcess :: "env \<Rightarrow> shell \<Rightarrow> CommandLine \<Rightarrow> int \<Rightarrow> outcome" where
  "parentProcess e s commands spawnPid =
     (case addChildrenPids (children s) spawnPid commands (bg commands) of
        None \<Rightarrow> Crashed
      | Some c1 \<Rightarrow>
          (if size_cp c1 = 50 then Aborted []
           else (let s1 = s\<lparr>children := c1\<rparr>;
                     started = (if bg commands = 1
                                then [Printf startsNotice [ArgInt spawnPid]] else [])
                 in if bg commands = 0
                    then (case foregroundWait e s1 spawnPid of
                            (s2, ev) \<Rightarrow> Continue s2 (started @ ev))
                    else Continue s1 started)))"

text \<open>The sweep at the end of a round (lines 908-909).\<close>

definition backgroundCheck :: "env \<Rightarrow> shell \<Rightarrow> (shell \<times> event list) option" where
  "backgroundCheck e s =
     (if size_cp (children s) \<noteq> 0
      then (case checkBGChildren (waitNoHang e) (children s) (sweepLocals e) of
              None \<Rightarrow> None
            | Some (c, loc, ev) \<Rightarrow> Some (s\<lparr>children := c\<rparr>, ev))
      else Some (s, []))"

fun thenBackgroundCheck :: "env \<Rightarrow> outcome \<Rightarrow> outcome" where
  "thenBackgroundCheck e (Continue s ev) =
     (case backgroundCheck e s of
        None \<Rightarrow> Crashed
      | Some (s1, ev1) \<Rightarrow> Continue s1 (ev @ ev1))"
| "thenBackgroundCheck e out = out"

text \<open>An external command (lines 815-909).\<close>

definition externalCommand :: "env \<Rightarrow> shell \<Rightarrow> CommandLine \<Rightarrow> outcome" where
  "externalCommand e s commands =
     (let cmd = decideBackground 0 (BGAllowed s) commands;
          spawnPid = forkRet e
      in if spawnPid = -1 then ExitCalled 1 [Perror ''Hull Breach!'']
         else if spawnPid = 0 then ChildProcess (childProcess cmd)
         else thenBackgroundCheck e (parentProcess e s cmd spawnPid))"

text \<open>
  One round of the loop of \<open>main\<close> (lines 769-912) on the command line \<open>parseLine\<close>
  returned. An empty line, a comment and the three built-in commands leave the round
  with \<open>continue\<close>, before the fork and before the sweep.
\<close>

definition mainIteration :: "env \<Rightarrow> shell \<Rightarrow> CommandLine \<Rightarrow> outcome" where
  "mainIteration e s commands =
     withPrefix [Printf '': '' []]
       (if size_cl commands = 0 then Continue s []
        else (case arrAt commands 0 of
                Some (Some a0) \<Rightarrow>
                  (if take 1 a0 = ''#'' then Continue s []
                   else if procTypeOf a0 = 1
                   then (case cdHandle e commands of
                           None \<Rightarrow> Crashed
                         | Some ev \<Rightarrow> Continue s ev)
                   else if procTypeOf a0 = 2
                   then Continue s (statusHandle (lastFGExitMethod s))
                   else if procTypeOf a0 = 3
                   then (case exitHandle (killRet e) (children s) of
                           None \<Rightarrow> Crashed
                         | Some (c, ev) \<Rightarrow> Continue (s\<lparr>keepGoing := 0, children := c\<rparr>) ev)
                   else externalCommand e s commands)
              | _ \<Rightarrow> Crashed))"

text \<open>Delivery of the toggle signal to the interpreter: the handler runs on the global.\<close>

definition deliverSIGTSTP :: "shell \<Rightarrow> shell \<times> event list" where
  "deliverSIGTSTP s =
     (case parentCatchSIGTSTP (BGAllowed s) of
        (b, ev) \<Rightarrow> (s\<lparr>BGAllowed := b\<rparr>, ev))"

section \<open>Observations on traces\<close>

text \<open>The events of one round of the shutdown loop aimed at \<open>p\<close>, by whether the
  termination request was accepted.\<close>

definition roundEvents :: "int \<Rightarrow> bool \<Rightarrow> event list" where
  "roundEvents p ok =
     KillCall p SIGTERM
     # (if ok then [Printf terminatedNotice [ArgInt p], Printf errorDeletingNotice []]
        else [Perror ''Exit Failure: ''])"

fun isTerminatedNotice :: "event \<Rightarrow> bool" where
  "isTerminatedNotice (Printf f args) = (f = terminatedNotice)"
| "isTerminatedNotice e = False"

fun isStartsNotice :: "event \<Rightarrow> bool" where
  "isStartsNotice (Printf f args) = (f = startsNotice)"
| "isStartsNotice e = False"

section \<open>Concrete inputs\<close>

text \<open>
  The command line \<open>parseLine\<close> builds from the input \<open>sleep 5\<close> (\<open>b = 0\<close>) or
  \<open>sleep 5 &\<close> (\<open>b = 1\<close>, both redirections then set to the null device), used as a
  concrete input.
\<close>

definition exampleCommand :: "int \<Rightarrow> CommandLine" where
  "exampleCommand b =
     \<lparr>capacity = 10, size_cl = 2, bg = b,
      inputFile = (if b = 1 then Some ''/dev/null'' else None),
      outputFile = (if b = 1 then Some ''/dev/null'' else None),
      arr = [Some ''sleep'', Some ''5''] @ replicate 8 None\<rparr>"

text \<open>
  The state of \<open>main\<close> before its first round (lines 741-766), the decoded variables
  not yet written; and a round's environment in which \<open>fork\<close> returns 4242, a
  foreground child exits with code 0, no background child has finished, and every other
  call succeeds.
\<close>

definition zeroDecoded :: decoded where
  "zeroDecoded = \<lparr>exited = 0, exitStatus = 0, signaled = 0, termSignal = 0\<rparr>"

definition initShell :: shell where
  "initShell = \<lparr>children = initChildrenPids, lastFGExitMethod = 0, BGAllowed = 1,
                 keepGoing = 1, fgDecoded = zeroDecoded\<rparr>"

definition exampleEnv :: env where
  "exampleEnv = \<lparr>forkRet = 4242, waitBlock = (\<lambda>p. Some 0), waitNoHang = (\<lambda>p. (0, None)),
                  killRet = (\<lambda>i p. 0), sigemptysetRet = 0, sigaddsetRet = 0,
                  sigblockRet = 0, sigunblockRet = 0, chdirRet = 0, homeDir = ''/root'',
                  sweepLocals = \<lparr>childExitMethod = 0, dec = zeroDecoded\<rparr>\<rparr>"

text \<open>The command line \<open>parseLine\<close> builds from the input \<open>status\<close>.\<close>

definition statusCommand :: CommandLine where
  "statusCommand = \<lparr>capacity = 10, size_cl = 1, bg = 0, inputFile = None, outputFile = None,
                     arr = [Some ''status''] @ replicate 9 None\<rparr>"

text \<open>A registry of three background children, as three rounds of \<open>sleep 5 &\<close> with
  \<open>fork\<close> returning 101, 102 and 103 leave it.\<close>

definition threeChildren :: ChildrenPids where
  "threeChildren =
     \<lparr>size_cp = 3,
      list_cp = [\<lparr>pidNo = 101, command = exampleCommand 1, builtIn = 1\<rparr>,
                 \<lparr>pidNo = 102, command = exampleCommand 1, builtIn = 1\<rparr>,
                 \<lparr>pidNo = 103, command = exampleCommand 1, builtIn = 1\<rparr>]\<rparr>"

text \<open>A registry of two background children, and the answers of the non-blocking
  \<open>waitpid\<close> when every child asked about has finished with exit code 0.\<close>

definition twoChildren :: ChildrenPids where
  "twoChildren =
     \<lparr>size_cp = 2,
      list_cp = [\<lparr>pidNo = 101, command = exampleCommand 1, builtIn = 1\<rparr>,
                 \<lparr>pidNo = 102, command = exampleCommand 1, builtIn = 1\<rparr>]\<rparr>"

definition allFinished :: "int \<Rightarrow> int \<times> int option" where
  "allFinished p = (p, Some (exitedWithCode 0))"

section \<open>Properties of the command line\<close>

lemma clInv_init:
  assumes "0 < cap"
  shows "\<exists>r. initCommandLine cap = Some r \<and> clInv r \<and> size_cl r = 0"
  using assms by (simp add: initCommandLine_def clInv_def)

lemma clInv_grow:
  assumes "clInv r"
  shows "\<exists>r1. growCommandLine r = Some r1 \<and> size_cl r1 = size_cl r
           \<and> 0 \<le> size_cl r1 \<and> size_cl r1 + 1 < capacity r1
           \<and> int (length (arr r1)) = capacity r1
           \<and> None \<notin> set (take (nat (size_cl r1)) (arr r1))
           \<and> drop (nat (size_cl r1)) (arr r1)
               = replicate (nat (capacity r1) - nat (size_cl r1)) None"
proof (cases "size_cl r = capacity r - 1")
  case True
  from assms have b: "0 \<le> size_cl r" "size_cl r < capacity r"
    "int (length (arr r)) = capacity r" "None \<notin> set (take (nat (size_cl r)) (arr r))"
    by (simp_all add: clInv_def)
  have le: "nat (size_cl r) \<le> length (arr r)" using b by linarith
  have n2: "nat (2 * capacity r) = nat (size_cl r) + (nat (2 * capacity r) - nat (size_cl r))"
    using b by linarith
  show ?thesis
    using True b le n2 by (simp add: growCommandLine_def min_absorb2)
next
  case False
  with assms show ?thesis
    by (simp add: growCommandLine_def clInv_def)
qed

lemma clInv_add:
  assumes "clInv r"
  shows "\<exists>r'. addCommandLine r str = Some r' \<and> clInv r' \<and> size_cl r' = size_cl r + 1"
proof -
  from clInv_grow [OF assms] obtain r1 where g: "growCommandLine r = Some r1"
    and s: "size_cl r1 = size_cl r" "0 \<le> size_cl r1" "size_cl r1 + 1 < capacity r1"
    and l: "int (length (arr r1)) = capacity r1"
    and n: "None \<notin> set (take (nat (size_cl r1)) (arr r1))"
    and d: "drop (nat (size_cl r1)) (arr r1)
              = replicate (nat (capacity r1) - nat (size_cl r1)) None"
    by blast
  let ?k = "nat (size_cl r1)"
  let ?a = "(arr r1)[?k := Some str]"
  have k: "?k < length (arr r1)" using s l by linarith
  have k1: "nat (size_cl r1 + 1) = Suc ?k" using s by linarith
  have t: "take (Suc ?k) ?a = take ?k (arr r1) @ [Some str]"
    using k by (simp add: take_Suc_conv_app_nth)
  have "drop (Suc ?k) ?a = drop (Suc ?k) (arr r1)" by simp
  also have "\<dots> = tl (drop ?k (arr r1))" by (simp add: drop_Suc tl_drop)
  also have "\<dots> = replicate (nat (capacity r1) - Suc ?k) None"
    by (simp add: d)
  finally have dd: "drop (Suc ?k) ?a = replicate (nat (capacity r1) - Suc ?k) None" .
  show ?thesis
    using g s l n k k1 t dd by (simp add: addCommandLine_def clInv_def)
qed

lemma clInv_addAll:
  assumes "clInv r"
  shows "\<exists>r'. addAll (Some r) strs = Some r' \<and> clInv r'
           \<and> size_cl r' = size_cl r + int (length strs)"
  using assms
proof (induction strs arbitrary: r)
  case Nil
  then show ?case by simp
next
  case (Cons s strs)
  from clInv_add [OF Cons.prems, of s] obtain r1 where
    a: "addCommandLine r s = Some r1" "clInv r1" "size_cl r1 = size_cl r + 1"
    by blast
  from Cons.IH [OF a(2)] a(1) a(3) show ?case by auto
qed

lemma clInv_null_at_size:
  assumes "clInv r"
  shows "arrAt r (size_cl r) = Some None"
proof -
  from assms have b: "0 \<le> size_cl r" "size_cl r < capacity r"
    "int (length (arr r)) = capacity r"
    and d: "drop (nat (size_cl r)) (arr r) = replicate (nat (capacity r) - nat (size_cl r)) None"
    by (simp_all add: clInv_def)
  have k: "nat (size_cl r) < length (arr r)" using b by linarith
  have "arr r ! nat (size_cl r) = hd (drop (nat (size_cl r)) (arr r))"
    using k by (simp add: hd_drop_conv_nth)
  also have "\<dots> = None" using b by (simp add: d)
  finally show ?thesis using b k by (simp add: arrAt_def)
qed

lemma clInv_backgroundSuffix:
  assumes "clInv r"
  shows "\<exists>r'. backgroundSuffix r = Some r' \<and> clInv r'
           \<and> (r' = r \<or> size_cl r' = size_cl r - 1 \<and> bg r' = 1)"
proof (cases "size_cl r > 0")
  case False
  with assms show ?thesis by (simp add: backgroundSuffix_def)
next
  case True
  from assms have b: "0 \<le> size_cl r" "size_cl r < capacity r"
    "int (length (arr r)) = capacity r"
    and n: "None \<notin> set (take (nat (size_cl r)) (arr r))"
    and d: "drop (nat (size_cl r)) (arr r) = replicate (nat (capacity r) - nat (size_cl r)) None"
    by (simp_all add: clInv_def)
  let ?k = "nat (size_cl r - 1)"
  have k: "Suc ?k = nat (size_cl r)" "?k < length (arr r)" using True b by linarith+
  have "arr r ! ?k \<in> set (take (nat (size_cl r)) (arr r))"
    using k by (metis in_set_conv_nth length_take lessI min_less_iff_conj nth_take
        less_imp_le_nat min_absorb2)
  with n obtain a where a: "arr r ! ?k = Some a" by (cases "arr r ! ?k") auto
  have at: "arrAt r (size_cl r - 1) = Some (Some a)"
    using True k a by (simp add: arrAt_def)
  show ?thesis
  proof (cases "a = ''&''")
    case False
    with True at assms show ?thesis by (simp add: backgroundSuffix_def)
  next
    case amp: True
    let ?a = "(arr r)[?k := None]"
    have t: "take ?k ?a = take ?k (arr r)" by simp
    have "set (take ?k (arr r)) \<subseteq> set (take (nat (size_cl r)) (arr r))"
      using k(1) by (metis set_take_subset_set_take le_SucI order_refl)
    with n have n': "None \<notin> set (take ?k ?a)" unfolding t by blast
    have "drop ?k ?a = ?a ! ?k # drop (Suc ?k) ?a"
      using k(2) by (metis Cons_nth_drop_Suc length_list_update)
    also have "\<dots> = None # drop (nat (size_cl r)) (arr r)" using k by simp
    also have "\<dots> = replicate (nat (capacity r) - ?k) None"
    proof -
      have "nat (capacity r) - ?k = Suc (nat (capacity r) - nat (size_cl r))"
        using True b by linarith
      then show ?thesis by (simp add: d)
    qed
    finally have d': "drop ?k ?a = replicate (nat (capacity r) - ?k) None" .
    show ?thesis
      using True at amp b n' d' by (simp add: backgroundSuffix_def clInv_def)
  qed
qed

text \<open>
  C9. A command line built by \<open>initCommandLine\<close> with a positive capacity (the program
  passes 10) and any sequence of \<open>addCommandLine\<close> calls is built without a crash, holds
  as many strings as were added, and its array has, inside its allocation, a null entry
  at index \<open>size\<close>: the argument vector is null-terminated. It still is after the end
  of \<open>parseLine\<close> has taken off a last word \<open>&\<close>, which is how the vector reaches the
  program-image-replacement call.
\<close>

theorem commandLine_null_terminated:
  assumes "0 < cap"
  shows "\<exists>r. addAll (initCommandLine cap) strs = Some r
           \<and> size_cl r = int (length strs)
           \<and> size_cl r < capacity r
           \<and> int (length (arr r)) = capacity r
           \<and> arrAt r (size_cl r) = Some None
           \<and> (\<exists>r'. backgroundSuffix r = Some r'
                 \<and> size_cl r' < capacity r'
                 \<and> int (length (arr r')) = capacity r'
                 \<and> arrAt r' (size_cl r') = Some None)"
proof -
  from clInv_init [OF assms] obtain r0 where
    i: "initCommandLine cap = Some r0" "clInv r0" "size_cl r0 = 0"
    by blast
  from clInv_addAll [OF i(2), of strs] obtain r where
    a: "addAll (Some r0) strs = Some r" "clInv r" "size_cl r = size_cl r0 + int (length strs)"
    by blast
  from clInv_backgroundSuffix [OF a(2)] obtain r' where
    b: "backgroundSuffix r = Some r'" "clInv r'"
    by blast
  have "arrAt r (size_cl r) = Some None" using a(2) by (rule clInv_null_at_size)
  moreover have "size_cl r < capacity r" "int (length (arr r)) = capacity r"
    using a(2) by (simp_all add: clInv_def)
  moreover have "arrAt r' (size_cl r') = Some None" using b(2) by (rule clInv_null_at_size)
  moreover have "size_cl r' < capacity r'" "int (length (arr r')) = capacity r'"
    using b(2) by (simp_all add: clInv_def)
  ultimately show ?thesis using i a b(1) by simp
qed

theorem commandLine_null_terminated_witness:
  "(0::int) < 10
   \<and> (\<exists>r. addAll (initCommandLine 10) [''ls'', ''-l'', ''src''] = Some r
         \<and> size_cl r = int (length [''ls'', ''-l'', ''src''])
         \<and> size_cl r < capacity r
         \<and> int (length (arr r)) = capacity r
         \<and> arrAt r (size_cl r) = Some None
         \<and> (\<exists>r'. backgroundSuffix r = Some r'
               \<and> size_cl r' < capacity r'
               \<and> int (length (arr r')) = capacity r'
               \<and> arrAt r' (size_cl r') = Some None))"
  using commandLine_null_terminated [of 10 "[''ls'', ''-l'', ''src'']"] by simp

section \<open>Properties of the registry\<close>

lemma inLinks_set: "inLinks ls num = (if num \<in> set (map pidNo ls) then 1 else 0)"
  by (induction ls) auto

lemma inChildrenPids_pidsOf:
  assumes "regInv c"
  shows "inChildrenPids c num = (if num \<in> set (pidsOf c) then 1 else 0)"
proof (cases "list_cp c")
  case Nil
  with assms show ?thesis by (simp add: inChildrenPids_def regInv_def pidsOf_def)
next
  case (Cons l ls)
  with assms have "size_cp c \<noteq> 0" by (simp add: regInv_def)
  then show ?thesis by (simp add: inChildrenPids_def inLinks_set pidsOf_def)
qed

lemma filter_absent:
  assumes "num \<notin> set (map pidNo ls)"
  shows "filter (\<lambda>l. pidNo l \<noteq> num) ls = ls"
  using assms by (induction ls) auto

lemma unlinkAfter_filter:
  assumes "pidNo t \<noteq> num" "distinct (map pidNo ls)" "num \<in> set (map pidNo ls)"
  shows "unlinkAfter (t # ls) num = t # filter (\<lambda>l. pidNo l \<noteq> num) ls"
  using assms
proof (induction ls arbitrary: t)
  case Nil
  then show ?case by simp
next
  case (Cons n rest)
  show ?case
  proof (cases "pidNo n = num")
    case True
    with Cons.prems have "num \<notin> set (map pidNo rest)" by simp
    then have "filter (\<lambda>l. pidNo l \<noteq> num) rest = rest" by (rule filter_absent)
    with True show ?thesis by simp
  next
    case False
    with Cons.prems have "distinct (map pidNo rest)" "num \<in> set (map pidNo rest)" by auto
    from Cons.IH [OF False this] False show ?thesis by simp
  qed
qed

lemma deleteChildrenPids_absent:
  assumes "inChildrenPids c num = 0"
  shows "deleteChildrenPids c num = (0, c)"
  using assms by (simp add: deleteChildrenPids_def)

lemma deleteChildrenPids_present:
  assumes "regInv c" "distinct (pidsOf c)" "num \<in> set (pidsOf c)"
  shows "deleteChildrenPids c num
           = (1, c\<lparr>list_cp := filter (\<lambda>l. pidNo l \<noteq> num) (list_cp c),
                    size_cp := size_cp c - 1\<rparr>)"
proof (cases "list_cp c")
  case Nil
  with assms show ?thesis by (simp add: pidsOf_def)
next
  case (Cons l ls)
  from assms have i: "inChildrenPids c num = 1" by (simp add: inChildrenPids_pidsOf)
  from assms Cons have d: "distinct (map pidNo ls)" "pidNo l \<notin> set (map pidNo ls)"
    by (simp_all add: pidsOf_def)
  show ?thesis
  proof (cases "pidNo l = num")
    case True
    with d have "num \<notin> set (map pidNo ls)" by simp
    then have "filter (\<lambda>x. pidNo x \<noteq> num) ls = ls" by (rule filter_absent)
    with True i Cons show ?thesis by (simp add: deleteChildrenPids_def)
  next
    case False
    with assms Cons have "num \<in> set (map pidNo ls)" by (auto simp: pidsOf_def)
    from unlinkAfter_filter [OF False d(1) this] False i Cons
    show ?thesis by (simp add: deleteChildrenPids_def)
  qed
qed

lemma addChildrenPids_ok:
  assumes "regInv c"
  shows "addChildrenPids c p cmd b
           = Some (c\<lparr>list_cp := list_cp c @ [initLink p cmd b], size_cp := size_cp c + 1\<rparr>)"
  using assms by (cases "list_cp c") (simp_all add: addChildrenPids_def regInv_def)

lemma filter_out_absent:
  assumes "(x::int) \<notin> set xs"
  shows "filter (\<lambda>p. p \<noteq> x) xs = xs"
  using assms by (induction xs) auto

lemma length_filter_out:
  assumes "distinct xs" "(x::int) \<in> set xs"
  shows "length (filter (\<lambda>p. p \<noteq> x) xs) = length xs - 1"
  using assms
proof (induction xs)
  case Nil
  then show ?case by simp
next
  case (Cons y ys)
  show ?case
  proof (cases "y = x")
    case True
    with Cons.prems have "x \<notin> set ys" by simp
    then have "filter (\<lambda>p. p \<noteq> x) ys = ys" by (rule filter_out_absent)
    with True show ?thesis by simp
  next
    case False
    with Cons.prems have "distinct ys" "x \<in> set ys" by auto
    from Cons.IH [OF this] False \<open>x \<in> set ys\<close> show ?thesis
      by (cases ys) auto
  qed
qed

lemma pidsOf_filter:
  "pidsOf (c\<lparr>list_cp := filter (\<lambda>l. pidNo l \<noteq> num) (list_cp c), size_cp := n\<rparr>)
     = filter (\<lambda>p. p \<noteq> num) (pidsOf c)"
  by (simp add: pidsOf_def filter_map comp_def)

lemma regInv_delete:
  assumes "regInv c" "distinct (pidsOf c)" "num \<in> set (pidsOf c)"
  shows "regInv (c\<lparr>list_cp := filter (\<lambda>l. pidNo l \<noteq> num) (list_cp c),
                    size_cp := size_cp c - 1\<rparr>)"
proof -
  have "length (filter (\<lambda>p. p \<noteq> num) (pidsOf c)) = length (pidsOf c) - 1"
    using assms(2,3) by (rule length_filter_out)
  moreover have "length (pidsOf c) > 0" using assms(3) by (cases "pidsOf c") auto
  moreover have "length (filter (\<lambda>l. pidNo l \<noteq> num) (list_cp c))
                   = length (filter (\<lambda>p. p \<noteq> num) (pidsOf c))"
    by (simp add: pidsOf_def filter_map comp_def)
  moreover have "length (pidsOf c) = length (list_cp c)" by (simp add: pidsOf_def)
  ultimately have "int (length (filter (\<lambda>l. pidNo l \<noteq> num) (list_cp c)))
                     = int (length (list_cp c)) - 1"
    by linarith
  then show ?thesis using assms(1) by (simp add: regInv_def)
qed

lemma runOps_general:
  assumes "regInv c0" "distinct (pidsOf c0 @ addedPids ops)"
  shows "\<exists>c rets. runOps c0 ops = Some (c, rets) \<and> regInv c \<and> distinct (pidsOf c)
           \<and> size_cp c = size_cp c0 + int (length (addedPids ops))
                          - int (length (filter (\<lambda>pr. snd pr = 1) rets))
           \<and> set (pidsOf c) = (set (pidsOf c0) \<union> set (addedPids ops)) - {p. (p, 1) \<in> set rets}"
  using assms
proof (induction ops arbitrary: c0)
  case Nil
  then show ?case by simp
next
  case (Cons op ops)
  show ?case
  proof (cases op)
    case (Add p cmd b)
    let ?c1 = "c0\<lparr>list_cp := list_cp c0 @ [initLink p cmd b], size_cp := size_cp c0 + 1\<rparr>"
    have a: "addChildrenPids c0 p cmd b = Some ?c1"
      using Cons.prems(1) by (rule addChildrenPids_ok)
    have p1: "pidsOf ?c1 = pidsOf c0 @ [p]" by (simp add: pidsOf_def initLink_def)
    have r1: "regInv ?c1" using Cons.prems(1) by (simp add: regInv_def)
    have d1: "distinct (pidsOf ?c1 @ addedPids ops)"
      using Cons.prems(2) Add by (simp add: p1)
    from Cons.IH [OF r1 d1] obtain c rets where
      h: "runOps ?c1 ops = Some (c, rets)" "regInv c" "distinct (pidsOf c)"
         "size_cp c = size_cp ?c1 + int (length (addedPids ops))
                      - int (length (filter (\<lambda>pr. snd pr = 1) rets))"
         "set (pidsOf c) = (set (pidsOf ?c1) \<union> set (addedPids ops)) - {p. (p, 1) \<in> set rets}"
      by blast
    have "runOps c0 (op # ops) = Some (c, rets)" using Add a h(1) by simp
    moreover have "size_cp c = size_cp c0 + int (length (addedPids (op # ops)))
                      - int (length (filter (\<lambda>pr. snd pr = 1) rets))"
      using h(4) Add by simp
    moreover have "set (pidsOf c)
        = (set (pidsOf c0) \<union> set (addedPids (op # ops))) - {p. (p, 1) \<in> set rets}"
      using h(5) Add by (simp add: p1 Un_commute insert_commute)
    ultimately show ?thesis using h(2,3) by blast
  next
    case (Remove q)
    show ?thesis
    proof (cases "q \<in> set (pidsOf c0)")
      case True
      let ?c1 = "c0\<lparr>list_cp := filter (\<lambda>l. pidNo l \<noteq> q) (list_cp c0),
                     size_cp := size_cp c0 - 1\<rparr>"
      from Cons.prems have d0: "distinct (pidsOf c0)" by simp
      have del: "deleteChildrenPids c0 q = (1, ?c1)"
        using Cons.prems(1) d0 True by (rule deleteChildrenPids_present)
      have p1: "pidsOf ?c1 = filter (\<lambda>p. p \<noteq> q) (pidsOf c0)" by (rule pidsOf_filter)
      have r1: "regInv ?c1" using Cons.prems(1) d0 True by (rule regInv_delete)
      have d1: "distinct (pidsOf ?c1 @ addedPids ops)"
        using Cons.prems(2) Remove by (auto simp: p1)
      have qa: "q \<notin> set (addedPids ops)" using Cons.prems(2) Remove True by auto
      from Cons.IH [OF r1 d1] obtain c rets where
        h: "runOps ?c1 ops = Some (c, rets)" "regInv c" "distinct (pidsOf c)"
           "size_cp c = size_cp ?c1 + int (length (addedPids ops))
                        - int (length (filter (\<lambda>pr. snd pr = 1) rets))"
           "set (pidsOf c) = (set (pidsOf ?c1) \<union> set (addedPids ops)) - {p. (p, 1) \<in> set rets}"
        by blast
      have "runOps c0 (op # ops) = Some (c, (q, 1) # rets)" using Remove del h(1) by simp
      moreover have "size_cp c = size_cp c0 + int (length (addedPids (op # ops)))
                      - int (length (filter (\<lambda>pr. snd pr = 1) ((q, 1) # rets)))"
        using h(4) Remove by simp
      moreover have "set (pidsOf c)
          = (set (pidsOf c0) \<union> set (addedPids (op # ops))) - {p. (p, 1) \<in> set ((q, 1) # rets)}"
        using h(5) Remove qa by (auto simp: p1)
      ultimately show ?thesis using h(2,3) by blast
    next
      case False
      have "inChildrenPids c0 q = 0"
        using Cons.prems(1) False by (simp add: inChildrenPids_pidsOf)
      then have del: "deleteChildrenPids c0 q = (0, c0)" by (rule deleteChildrenPids_absent)
      have d1: "distinct (pidsOf c0 @ addedPids ops)" using Cons.prems(2) Remove by simp
      from Cons.IH [OF Cons.prems(1) d1] obtain c rets where
        h: "runOps c0 ops = Some (c, rets)" "regInv c" "distinct (pidsOf c)"
           "size_cp c = size_cp c0 + int (length (addedPids ops))
                        - int (length (filter (\<lambda>pr. snd pr = 1) rets))"
           "set (pidsOf c) = (set (pidsOf c0) \<union> set (addedPids ops)) - {p. (p, 1) \<in> set rets}"
        by blast
      have "runOps c0 (op # ops) = Some (c, (q, 0) # rets)" using Remove del h(1) by simp
      moreover have "size_cp c = size_cp c0 + int (length (addedPids (op # ops)))
                      - int (length (filter (\<lambda>pr. snd pr = 1) ((q, 0) # rets)))"
        using h(4) Remove by simp
      moreover have "set (pidsOf c)
          = (set (pidsOf c0) \<union> set (addedPids (op # ops))) - {p. (p, 1) \<in> set ((q, 0) # rets)}"
        using h(5) Remove by simp
      ultimately show ?thesis using h(2,3) by blast
    qed
  qed
qed

text \<open>
  C6. Run any sequence of add and remove operations from the empty registry, the added
  identifiers pairwise distinct. No operation crashes; the final \<open>size\<close> is the number of
  adds minus the number of removes that returned 1; an identifier is contained at the end
  exactly when it was added and no remove of it returned 1; and on the registry reached,
  a remove returns 1 exactly when the identifier is contained, then taking its record out
  and decrementing \<open>size\<close>, and returns 0 with the registry unchanged otherwise; after a
  remove the identifier is not contained.
\<close>

theorem registry_add_remove:
  assumes "distinct (addedPids ops)"
  shows "\<exists>c rets. runOps initChildrenPids ops = Some (c, rets)
           \<and> size_cp c = int (length (addedPids ops))
                          - int (length (filter (\<lambda>pr. snd pr = 1) rets))
           \<and> (\<forall>num. inChildrenPids c num
                  = (if num \<in> set (addedPids ops) \<and> (num, 1) \<notin> set rets then 1 else 0))
           \<and> (\<forall>num. deleteChildrenPids c num
                  = (if inChildrenPids c num = 1
                     then (1, c\<lparr>list_cp := filter (\<lambda>l. pidNo l \<noteq> num) (list_cp c),
                                size_cp := size_cp c - 1\<rparr>)
                     else (0, c)))
           \<and> (\<forall>num. inChildrenPids (snd (deleteChildrenPids c num)) num = 0)"
proof -
  have r0: "regInv initChildrenPids" by (simp add: regInv_def initChildrenPids_def)
  have d0: "distinct (pidsOf initChildrenPids @ addedPids ops)"
    using assms by (simp add: pidsOf_def initChildrenPids_def)
  from runOps_general [OF r0 d0] obtain c rets where
    h: "runOps initChildrenPids ops = Some (c, rets)" "regInv c" "distinct (pidsOf c)"
       "size_cp c = size_cp initChildrenPids + int (length (addedPids ops))
                    - int (length (filter (\<lambda>pr. snd pr = 1) rets))"
       "set (pidsOf c) = (set (pidsOf initChildrenPids) \<union> set (addedPids ops))
                         - {p. (p, 1) \<in> set rets}"
    by blast
  have s: "size_cp c = int (length (addedPids ops))
                       - int (length (filter (\<lambda>pr. snd pr = 1) rets))"
    using h(4) by (simp add: initChildrenPids_def)
  have m: "set (pidsOf c) = set (addedPids ops) - {p. (p, 1) \<in> set rets}"
    using h(5) by (simp add: pidsOf_def initChildrenPids_def)
  have i: "inChildrenPids c num
             = (if num \<in> set (addedPids ops) \<and> (num, 1) \<notin> set rets then 1 else 0)" for num
    using h(2) m by (simp add: inChildrenPids_pidsOf)
  have del: "deleteChildrenPids c num
               = (if inChildrenPids c num = 1
                  then (1, c\<lparr>list_cp := filter (\<lambda>l. pidNo l \<noteq> num) (list_cp c),
                             size_cp := size_cp c - 1\<rparr>)
                  else (0, c))" for num
  proof (cases "num \<in> set (pidsOf c)")
    case True
    with h(2) have "inChildrenPids c num = 1" by (simp add: inChildrenPids_pidsOf)
    with deleteChildrenPids_present [OF h(2,3) True] show ?thesis by simp
  next
    case False
    with h(2) have z: "inChildrenPids c num = 0" by (simp add: inChildrenPids_pidsOf)
    with deleteChildrenPids_absent [OF z] show ?thesis by simp
  qed
  have gone: "inChildrenPids (snd (deleteChildrenPids c num)) num = 0" for num
  proof (cases "num \<in> set (pidsOf c)")
    case True
    let ?c1 = "c\<lparr>list_cp := filter (\<lambda>l. pidNo l \<noteq> num) (list_cp c),
                  size_cp := size_cp c - 1\<rparr>"
    have "regInv ?c1" using h(2,3) True by (rule regInv_delete)
    moreover have "num \<notin> set (pidsOf ?c1)" by (simp add: pidsOf_filter)
    ultimately have "inChildrenPids ?c1 num = 0" by (simp add: inChildrenPids_pidsOf)
    with deleteChildrenPids_present [OF h(2,3) True] show ?thesis by simp
  next
    case False
    with h(2) have z: "inChildrenPids c num = 0" by (simp add: inChildrenPids_pidsOf)
    with deleteChildrenPids_absent [OF z] show ?thesis by simp
  qed
  from h(1) s i del gone show ?thesis by blast
qed

theorem registry_add_remove_witness:
  "distinct (addedPids [Add 101 (exampleCommand 1) 1, Add 102 (exampleCommand 0) 0,
                        Remove 101, Remove 7])
   \<and> (\<exists>c rets. runOps initChildrenPids
                    [Add 101 (exampleCommand 1) 1, Add 102 (exampleCommand 0) 0,
                     Remove 101, Remove 7] = Some (c, rets)
         \<and> size_cp c = int (length (addedPids
                    [Add 101 (exampleCommand 1) 1, Add 102 (exampleCommand 0) 0,
                     Remove 101, Remove 7]))
                        - int (length (filter (\<lambda>pr. snd pr = 1) rets))
         \<and> (\<forall>num. inChildrenPids c num
                = (if num \<in> set (addedPids
                    [Add 101 (exampleCommand 1) 1, Add 102 (exampleCommand 0) 0,
                     Remove 101, Remove 7]) \<and> (num, 1) \<notin> set rets then 1 else 0))
         \<and> (\<forall>num. deleteChildrenPids c num
                = (if inChildrenPids c num = 1
                   then (1, c\<lparr>list_cp := filter (\<lambda>l. pidNo l \<noteq> num) (list_cp c),
                              size_cp := size_cp c - 1\<rparr>)
                   else (0, c)))
         \<and> (\<forall>num. inChildrenPids (snd (deleteChildrenPids c num)) num = 0))"
  using registry_add_remove [of "[Add 101 (exampleCommand 1) 1, Add 102 (exampleCommand 0) 0,
                                  Remove 101, Remove 7]"]
  by simp

section \<open>Arithmetic of the wait status\<close>

lemma and_127: "(s::int) AND 127 = s mod 128"
  using take_bit_eq_mask [of 7 s] by (simp add: take_bit_eq_mod mask_eq_exp_minus_1)

lemma WTERMSIG_mod: "WTERMSIG s = s mod 128"
  by (simp add: WTERMSIG_def and_127)

lemma WEXITSTATUS_div: "WEXITSTATUS s = (s div 256) mod 256"
proof -
  have "drop_bit 8 (s AND 65280) = drop_bit 8 s AND drop_bit 8 65280"
    by (rule drop_bit_and)
  also have "drop_bit 8 (65280::int) = mask 8"
    by (simp add: drop_bit_eq_div mask_eq_exp_minus_1)
  finally show ?thesis
    by (simp add: WEXITSTATUS_def take_bit_eq_mask [symmetric] take_bit_eq_mod drop_bit_eq_div)
qed

lemma WIFSIGNALED_range:
  "WIFSIGNALED s = (if 1 \<le> s mod 128 \<and> s mod 128 \<le> 126 then 1 else 0)"
proof -
  let ?t = "s mod 128"
  have b: "0 \<le> ?t" "?t < 128" by simp_all
  have m: "(?t + 1) mod 256 = ?t + 1" using b by simp
  show ?thesis
    using b by (auto simp: WIFSIGNALED_def and_127 signedChar_def m drop_bit_eq_div)
qed

lemma exitedWithCode_mul: "exitedWithCode c = c * 256"
  by (simp add: exitedWithCode_def W_EXITCODE_def push_bit_eq_mult)

lemma signaledWith_add:
  assumes "0 \<le> s" "s < 128"
  shows "signaledWith s core = s + (if core then 128 else 0)"
proof -
  have t: "take_bit 7 s = s" using assms by (simp add: take_bit_int_eq_self)
  have "s OR 128 = s + 128"
  proof -
    have "s AND 128 = 0"
    proof (rule bit_eqI)
      fix n
      have "bit (128::int) n \<longleftrightarrow> n = 7"
        using bit_push_bit_iff_int [of 7 1 n] by (auto simp: bit_1_iff)
      moreover have "\<not> bit s 7"
        using t by (metis bit_take_bit_iff less_irrefl)
      ultimately show "bit (s AND 128) n \<longleftrightarrow> bit (0::int) n"
        by (auto simp: bit_and_iff)
    qed
    with plus_and_or [of s 128] show ?thesis by simp
  qed
  then show ?thesis by (simp add: signaledWith_def W_EXITCODE_def)
qed

section \<open>Properties of the decoding\<close>

lemma decipher_exited:
  assumes "0 \<le> c" "c \<le> 255"
  shows "decipherExitStatus (exitedWithCode c) d
           = \<lparr>exited = 1, exitStatus = c, signaled = 0, termSignal = 0\<rparr>"
proof -
  have "(c * 256) mod 128 = 0" by presburger
  moreover have "(c * 256 div 256) mod 256 = c" using assms by simp
  ultimately show ?thesis
    by (simp add: decipherExitStatus_def WIFEXITED_def WTERMSIG_mod WEXITSTATUS_div
        exitedWithCode_mul)
qed

lemma decipher_signaled:
  assumes "1 \<le> s" "s \<le> 126"
  shows "decipherExitStatus (signaledWith s core) d
           = \<lparr>exited = 0, exitStatus = 0, signaled = 1, termSignal = s\<rparr>"
proof -
  have e: "signaledWith s core = s + (if core then 128 else 0)"
    using assms by (simp add: signaledWith_add)
  have m: "(s + (if core then 128 else 0)) mod 128 = s" using assms by simp
  show ?thesis
    using assms
    by (simp add: decipherExitStatus_def WIFEXITED_def WIFSIGNALED_range WTERMSIG_mod e m
        del: One_nat_def)
qed

lemma not_both_shapes: "\<not> (WIFEXITED st \<noteq> 0 \<and> WIFSIGNALED st \<noteq> 0)"
  by (simp add: WIFEXITED_def WIFSIGNALED_range WTERMSIG_mod)

lemma decipher_not_both:
  assumes "\<not> (exited d \<noteq> 0 \<and> signaled d \<noteq> 0)"
  shows "\<not> (exited (decipherExitStatus st d) \<noteq> 0 \<and> signaled (decipherExitStatus st d) \<noteq> 0)"
  using assms by (simp add: decipherExitStatus_def)

lemma foregroundWait_decoded:
  "fgDecoded (fst (foregroundWait e s spawnPid))
     = decipherExitStatus (lastFGExitMethod (fst (foregroundWait e s spawnPid))) (fgDecoded s)"
  by (simp add: foregroundWait_def Let_def)

lemma sweepRound_decoded:
  assumes "fst (w p) \<noteq> 0"
  shows "dec (fst (snd (sweepRound w p c loc)))
           = decipherExitStatus (childExitMethod (fst (snd (sweepRound w p c loc)))) (dec loc)"
  using assms by (cases "w p") (simp add: sweepRound_def Let_def)

text \<open>
  C4. \<open>decipherExitStatus\<close> on the two termination shapes: for a child that exited with
  code \<open>c\<close> (0 to 255, 0 included) it yields \<open>exited = 1\<close>, \<open>exitStatus = c\<close>,
  \<open>signaled = 0\<close>; for a child killed by signal \<open>s\<close> (1 to 126, with or without a core
  dump) it yields \<open>signaled = 1\<close>, \<open>termSignal = s\<close>, \<open>exited = 0\<close>; whatever the values of
  the variables before the call. No status is of both shapes, and the call never makes
  both flags non-zero. The foreground wait and the background sweep both get their
  decoded values from this one function, applied to the status they keep.
\<close>

theorem decode_total_on_shapes:
  "(\<forall>c d. 0 \<le> c \<and> c \<le> 255 \<longrightarrow>
      decipherExitStatus (exitedWithCode c) d
        = \<lparr>exited = 1, exitStatus = c, signaled = 0, termSignal = 0\<rparr>)
   \<and> (\<forall>sg core d. 1 \<le> sg \<and> sg \<le> 126 \<longrightarrow>
      decipherExitStatus (signaledWith sg core) d
        = \<lparr>exited = 0, exitStatus = 0, signaled = 1, termSignal = sg\<rparr>)
   \<and> (\<forall>st. \<not> (WIFEXITED st \<noteq> 0 \<and> WIFSIGNALED st \<noteq> 0))
   \<and> (\<forall>st d. \<not> (exited d \<noteq> 0 \<and> signaled d \<noteq> 0) \<longrightarrow>
      \<not> (exited (decipherExitStatus st d) \<noteq> 0 \<and> signaled (decipherExitStatus st d) \<noteq> 0))
   \<and> (\<forall>e s spawnPid.
      fgDecoded (fst (foregroundWait e s spawnPid))
        = decipherExitStatus (lastFGExitMethod (fst (foregroundWait e s spawnPid)))
            (fgDecoded s))
   \<and> (\<forall>w p c loc. fst (w p) \<noteq> 0 \<longrightarrow>
      dec (fst (snd (sweepRound w p c loc)))
        = decipherExitStatus (childExitMethod (fst (snd (sweepRound w p c loc)))) (dec loc))"
  using decipher_exited decipher_signaled not_both_shapes decipher_not_both
    foregroundWait_decoded sweepRound_decoded
  by blast

theorem decode_total_on_shapes_witness:
  "decipherExitStatus (exitedWithCode 0) \<lparr>exited = 0, exitStatus = 7, signaled = 1, termSignal = 9\<rparr>
     = \<lparr>exited = 1, exitStatus = 0, signaled = 0, termSignal = 0\<rparr>
   \<and> decipherExitStatus (exitedWithCode 2) \<lparr>exited = 0, exitStatus = 7, signaled = 1, termSignal = 9\<rparr>
     = \<lparr>exited = 1, exitStatus = 2, signaled = 0, termSignal = 0\<rparr>
   \<and> decipherExitStatus (signaledWith 15 False)
        \<lparr>exited = 1, exitStatus = 7, signaled = 0, termSignal = 0\<rparr>
     = \<lparr>exited = 0, exitStatus = 0, signaled = 1, termSignal = 15\<rparr>
   \<and> exitedWithCode 2 = 512 \<and> signaledWith 15 False = 15"
proof -
  have a: "(0::int) \<le> 0 \<and> (0::int) \<le> 255" "(0::int) \<le> 2 \<and> (2::int) \<le> 255"
    "(1::int) \<le> 15 \<and> (15::int) \<le> 126"
    by simp_all
  have "exitedWithCode 2 = 512" by (simp add: exitedWithCode_mul)
  moreover have "signaledWith 15 False = 15" by (simp add: signaledWith_add)
  ultimately show ?thesis
    using a decode_total_on_shapes by blast
qed

section \<open>The concrete command lines are what the parser builds\<close>

lemma concrete_commands_parsed:
  "Option.bind (addAll (initCommandLine 10) [''sleep'', ''5'', ''&'']) backgroundSuffix
     = Some (exampleCommand 1)"
  "Option.bind (addAll (initCommandLine 10) [''sleep'', ''5'']) backgroundSuffix
     = Some (exampleCommand 0)"
  "Option.bind (addAll (initCommandLine 10) [''status'']) backgroundSuffix
     = Some statusCommand"
  by (simp_all add: initCommandLine_def addCommandLine_def growCommandLine_def
      backgroundSuffix_def arrAt_def exampleCommand_def statusCommand_def eval_nat_numeral)

section \<open>The mode flag changes in the handler only\<close>

lemma withPrefix_Continue:
  assumes "withPrefix pre out = Continue s' ev"
  shows "\<exists>ev0. out = Continue s' ev0"
  using assms by (cases out) auto

lemma parentProcess_BGAllowed:
  assumes "parentProcess e s c p = Continue s' ev"
  shows "BGAllowed s' = BGAllowed s"
  using assms
  by (auto simp: parentProcess_def foregroundWait_def Let_def
      split: option.splits if_splits)

lemma backgroundCheck_BGAllowed:
  assumes "backgroundCheck e s = Some (s', ev)"
  shows "BGAllowed s' = BGAllowed s"
  using assms by (auto simp: backgroundCheck_def split: option.splits if_splits)

lemma thenBackgroundCheck_BGAllowed:
  assumes "thenBackgroundCheck e out = Continue s' ev"
  shows "\<exists>s0 ev0. out = Continue s0 ev0 \<and> BGAllowed s' = BGAllowed s0"
proof (cases out)
  case (Continue s0 ev0)
  with assms obtain ev1 where "backgroundCheck e s0 = Some (s', ev1)"
    by (auto split: option.splits)
  then have "BGAllowed s' = BGAllowed s0" by (rule backgroundCheck_BGAllowed)
  with Continue show ?thesis by simp
qed (use assms in simp_all)

lemma externalCommand_BGAllowed:
  assumes "externalCommand e s c = Continue s' ev"
  shows "BGAllowed s' = BGAllowed s"
proof -
  from assms have
    "thenBackgroundCheck e (parentProcess e s (decideBackground 0 (BGAllowed s) c) (forkRet e))
       = Continue s' ev"
    by (simp add: externalCommand_def Let_def split: if_splits)
  from thenBackgroundCheck_BGAllowed [OF this] obtain s0 ev0 where
    "parentProcess e s (decideBackground 0 (BGAllowed s) c) (forkRet e) = Continue s0 ev0"
    "BGAllowed s' = BGAllowed s0"
    by blast
  with parentProcess_BGAllowed show ?thesis by simp
qed

lemma mainIteration_BGAllowed:
  assumes "mainIteration e s c = Continue s' ev"
  shows "BGAllowed s' = BGAllowed s"
proof -
  from withPrefix_Continue [OF assms [unfolded mainIteration_def]] obtain ev0 where
    h: "(if size_cl c = 0 then Continue s []
        else (case arrAt c 0 of
                Some (Some a0) \<Rightarrow>
                  (if take 1 a0 = ''#'' then Continue s []
                   else if procTypeOf a0 = 1
                   then (case cdHandle e c of
                           None \<Rightarrow> Crashed
                         | Some ev \<Rightarrow> Continue s ev)
                   else if procTypeOf a0 = 2
                   then Continue s (statusHandle (lastFGExitMethod s))
                   else if procTypeOf a0 = 3
                   then (case exitHandle (killRet e) (children s) of
                           None \<Rightarrow> Crashed
                         | Some (c, ev) \<Rightarrow> Continue (s\<lparr>keepGoing := 0, children := c\<rparr>) ev)
                   else externalCommand e s c)
              | _ \<Rightarrow> Crashed)) = Continue s' ev0"
    by blast
  then show ?thesis
    by (auto split: if_splits option.splits dest: externalCommand_BGAllowed)
qed

text \<open>
  C7. Delivering the toggle signal changes \<open>BGAllowed\<close> and nothing else of the state:
  from 1 (background allowed) to 0 (foreground only) with the one raw write of the
  "enter" notice to descriptor 1, from 0 to 1 with the one raw write of the "exit"
  notice; delivered twice from 1, the flag is 1 again. No round of the control loop
  changes the flag.
\<close>

theorem mode_flag_toggle:
  "(\<forall>s. BGAllowed s = 1 \<longrightarrow>
      deliverSIGTSTP s = (s\<lparr>BGAllowed := 0\<rparr>, [WriteFd 1 enterNotice]))
   \<and> (\<forall>s. BGAllowed s = 0 \<longrightarrow>
      deliverSIGTSTP s = (s\<lparr>BGAllowed := 1\<rparr>, [WriteFd 1 exitNotice]))
   \<and> (\<forall>s. BGAllowed s = 1 \<longrightarrow>
      BGAllowed (fst (deliverSIGTSTP (fst (deliverSIGTSTP s)))) = 1)
   \<and> (\<forall>s. \<exists>b n. deliverSIGTSTP s = (s\<lparr>BGAllowed := b\<rparr>, [WriteFd 1 n])
            \<and> b \<noteq> BGAllowed s \<and> (n = enterNotice \<or> n = exitNotice))
   \<and> (\<forall>e s c s' ev. mainIteration e s c = Continue s' ev \<longrightarrow> BGAllowed s' = BGAllowed s)
   \<and> enterNotice = ''Enter foreground only mode (& is ignored)\<newline>: '' @ [CHR 0x00]
   \<and> exitNotice = ''Exit foreground only mode\<newline>: ''"
proof -
  have "deliverSIGTSTP s = (s\<lparr>BGAllowed := 0\<rparr>, [WriteFd 1 enterNotice])"
    if "BGAllowed s = 1" for s
    using that by (simp add: deliverSIGTSTP_def parentCatchSIGTSTP_def)
  moreover have "deliverSIGTSTP s = (s\<lparr>BGAllowed := 1\<rparr>, [WriteFd 1 exitNotice])"
    if "BGAllowed s = 0" for s
    using that by (simp add: deliverSIGTSTP_def parentCatchSIGTSTP_def)
  moreover have "BGAllowed (fst (deliverSIGTSTP (fst (deliverSIGTSTP s)))) = 1"
    if "BGAllowed s = 1" for s
    using that by (simp add: deliverSIGTSTP_def parentCatchSIGTSTP_def)
  moreover have "\<exists>b n. deliverSIGTSTP s = (s\<lparr>BGAllowed := b\<rparr>, [WriteFd 1 n])
            \<and> b \<noteq> BGAllowed s \<and> (n = enterNotice \<or> n = exitNotice)" for s
    by (cases "BGAllowed s = 1") (auto simp: deliverSIGTSTP_def parentCatchSIGTSTP_def)
  moreover have "BGAllowed s' = BGAllowed s"
    if "mainIteration e s c = Continue s' ev" for e s c s' ev
    using that by (rule mainIteration_BGAllowed)
  moreover have "enterNotice = ''Enter foreground only mode (& is ignored)\<newline>: '' @ [CHR 0x00]"
    by (simp add: enterNotice_def literalBytes_def)
  moreover have "exitNotice = ''Exit foreground only mode\<newline>: ''"
    by (simp add: exitNotice_def literalBytes_def)
  ultimately show ?thesis by blast
qed

theorem mode_flag_toggle_witness:
  "BGAllowed initShell = 1
   \<and> deliverSIGTSTP initShell = (initShell\<lparr>BGAllowed := 0\<rparr>, [WriteFd 1 enterNotice])
   \<and> BGAllowed (initShell\<lparr>BGAllowed := 0\<rparr>) = 0
   \<and> deliverSIGTSTP (initShell\<lparr>BGAllowed := 0\<rparr>)
       = (initShell\<lparr>BGAllowed := 0, BGAllowed := 1\<rparr>, [WriteFd 1 exitNotice])
   \<and> BGAllowed (fst (deliverSIGTSTP (fst (deliverSIGTSTP initShell)))) = 1
   \<and> mainIteration exampleEnv initShell statusCommand
       = Continue initShell [Printf '': '' [], Printf ''exit value %d\<newline>'' [ArgInt 0]]"
proof -
  have h1: "BGAllowed initShell = 1" by (simp add: initShell_def)
  have h0: "BGAllowed (initShell\<lparr>BGAllowed := 0\<rparr>) = 0" by simp
  have h2: "mainIteration exampleEnv initShell statusCommand
       = Continue initShell [Printf '': '' [], Printf ''exit value %d\<newline>'' [ArgInt 0]]"
    by (simp add: mainIteration_def statusCommand_def arrAt_def procTypeOf_def
        statusHandle_def WIFEXITED_def WTERMSIG_mod WEXITSTATUS_div initShell_def)
  from mode_flag_toggle have
    a: "\<forall>s. BGAllowed s = 1 \<longrightarrow>
          deliverSIGTSTP s = (s\<lparr>BGAllowed := 0\<rparr>, [WriteFd 1 enterNotice])"
    and b: "\<forall>s. BGAllowed s = 0 \<longrightarrow>
          deliverSIGTSTP s = (s\<lparr>BGAllowed := 1\<rparr>, [WriteFd 1 exitNotice])"
    and c: "\<forall>s. BGAllowed s = 1 \<longrightarrow>
          BGAllowed (fst (deliverSIGTSTP (fst (deliverSIGTSTP s)))) = 1"
    by blast+
  from a h1 have "deliverSIGTSTP initShell = (initShell\<lparr>BGAllowed := 0\<rparr>, [WriteFd 1 enterNotice])"
    by blast
  moreover from b h0 have "deliverSIGTSTP (initShell\<lparr>BGAllowed := 0\<rparr>)
       = (initShell\<lparr>BGAllowed := 0, BGAllowed := 1\<rparr>, [WriteFd 1 exitNotice])"
    by blast
  moreover from c h1 have "BGAllowed (fst (deliverSIGTSTP (fst (deliverSIGTSTP initShell)))) = 1"
    by blast
  ultimately show ?thesis using h1 h0 h2 by blast
qed

section \<open>Properties of the shutdown loop\<close>

lemma delete_head:
  assumes "list_cp c = temp # rest" "size_cp c \<noteq> 0"
  shows "deleteChildrenPids c (pidNo temp) = (1, c\<lparr>list_cp := rest, size_cp := size_cp c - 1\<rparr>)"
  using assms by (simp add: deleteChildrenPids_def inChildrenPids_def)

lemma exitRound_head:
  assumes "list_cp c = temp # rest" "size_cp c \<noteq> 0"
  shows "exitRound kr i c
           = Some (if kr i (pidNo temp) = 0
                   then c\<lparr>list_cp := rest, size_cp := size_cp c - 1\<rparr> else c,
                   roundEvents (pidNo temp) (kr i (pidNo temp) = 0))"
  using assms by (simp add: exitRound_def delete_head roundEvents_def)

lemma exitRound_Some:
  assumes "exitRound kr i c = Some (c1, ev)" "size_cp c \<noteq> 0"
  shows "\<exists>temp rest. list_cp c = temp # rest
           \<and> c1 = (if kr i (pidNo temp) = 0
                    then c\<lparr>list_cp := rest, size_cp := size_cp c - 1\<rparr> else c)
           \<and> ev = roundEvents (pidNo temp) (kr i (pidNo temp) = 0)"
proof (cases "list_cp c")
  case Nil
  with assms(1) show ?thesis by (simp add: exitRound_def)
next
  case (Cons temp rest)
  from exitRound_head [OF Cons assms(2), of kr i] assms(1) Cons
  show ?thesis by simp
qed

lemma exitLoop_stop:
  assumes "size_cp c = 0 \<or> 50 \<le> i"
  shows "exitLoop kr i c = Some (c, [])"
  using assms by (auto simp: exitLoop.simps [of kr i c])

lemma exitLoop_step:
  assumes "size_cp c \<noteq> 0" "i < 50" "list_cp c = temp # rest"
  shows "exitLoop kr i c
           = (case exitLoop kr (Suc i)
                     (if kr i (pidNo temp) = 0
                      then c\<lparr>list_cp := rest, size_cp := size_cp c - 1\<rparr> else c) of
                None \<Rightarrow> None
              | Some (c2, ev2) \<Rightarrow>
                  Some (c2, roundEvents (pidNo temp) (kr i (pidNo temp) = 0) @ ev2))"
  using assms exitRound_head [OF assms(3,1), of kr i]
  by (simp add: exitLoop.simps [of kr i c])

lemma exitLoop_rounds:
  assumes "exitLoop kr i c = Some (c', ev)"
  shows "\<exists>rounds. ev = concat (map (\<lambda>(p, ok). roundEvents p ok) rounds)
           \<and> i + length rounds \<le> max i 50
           \<and> size_cp c' = size_cp c - int (length (filter snd rounds))
           \<and> (size_cp c' = 0 \<or> 50 \<le> i + length rounds)"
  using assms
proof (induction kr i c arbitrary: c' ev rule: exitLoop.induct)
  case (1 kr i c)
  show ?case
  proof (cases "size_cp c \<noteq> 0 \<and> i < 50")
    case False
    then have "exitLoop kr i c = Some (c, [])" by (auto intro: exitLoop_stop)
    with "1.prems" have "c' = c" "ev = []" by simp_all
    with False show ?thesis by (intro exI [of _ "[]"]) auto
  next
    case True
    from "1.prems" True obtain c1 ev1 c2 ev2 where
      r: "exitRound kr i c = Some (c1, ev1)"
      and l: "exitLoop kr (Suc i) c1 = Some (c2, ev2)"
      and e: "c' = c2" "ev = ev1 @ ev2"
      by (auto simp: exitLoop.simps [of kr i c] split: option.splits)
    from exitRound_Some [OF r] True obtain temp rest where
      h: "list_cp c = temp # rest"
         "c1 = (if kr i (pidNo temp) = 0
                then c\<lparr>list_cp := rest, size_cp := size_cp c - 1\<rparr> else c)"
         "ev1 = roundEvents (pidNo temp) (kr i (pidNo temp) = 0)"
      by blast
    from "1.IH" [OF True r refl l] obtain rounds where
      ih: "ev2 = concat (map (\<lambda>(p, ok). roundEvents p ok) rounds)"
          "Suc i + length rounds \<le> max (Suc i) 50"
          "size_cp c2 = size_cp c1 - int (length (filter snd rounds))"
          "size_cp c2 = 0 \<or> 50 \<le> Suc i + length rounds"
      by blast
    let ?r = "(pidNo temp, kr i (pidNo temp) = 0) # rounds"
    have "ev = concat (map (\<lambda>(p, ok). roundEvents p ok) ?r)"
      using e h(3) ih(1) by simp
    moreover have "i + length ?r \<le> max i 50" using ih(2) True by simp
    moreover have "size_cp c' = size_cp c - int (length (filter snd ?r))"
      using e ih(3) h(2) by simp
    moreover have "size_cp c' = 0 \<or> 50 \<le> i + length ?r" using e ih(4) by simp
    ultimately show ?thesis by blast
  qed
qed

lemma exitLoop_regInv:
  assumes "regInv c"
  shows "\<exists>c' ev. exitLoop kr i c = Some (c', ev) \<and> regInv c'"
  using assms
proof (induction "50 - i" arbitrary: i c)
  case 0
  then have "exitLoop kr i c = Some (c, [])" by (auto intro: exitLoop_stop)
  with "0.prems" show ?case by simp
next
  case (Suc n)
  show ?case
  proof (cases "list_cp c")
    case Nil
    with Suc.prems have "size_cp c = 0" by (simp add: regInv_def)
    then have "exitLoop kr i c = Some (c, [])" by (auto intro: exitLoop_stop)
    with Suc.prems show ?thesis by simp
  next
    case (Cons temp rest)
    let ?c1 = "if kr i (pidNo temp) = 0
               then c\<lparr>list_cp := rest, size_cp := size_cp c - 1\<rparr> else c"
    from Cons Suc.prems have nz: "size_cp c \<noteq> 0" by (simp add: regInv_def)
    from Suc.hyps(2) have lt: "i < 50" by simp
    have "regInv ?c1" using Suc.prems Cons by (simp add: regInv_def)
    moreover have "n = 50 - Suc i" using Suc.hyps(2) by simp
    ultimately obtain c' ev where
      "exitLoop kr (Suc i) ?c1 = Some (c', ev)" "regInv c'"
      using Suc.hyps(1) by blast
    with exitLoop_step [OF nz lt Cons, of kr] show ?thesis by simp
  qed
qed

lemma exitLoop_all_accept:
  assumes "regInv c" "\<forall>j p. kr j p = 0" "i + length (list_cp c) \<le> 50"
  shows "\<exists>c'. exitLoop kr i c
                 = Some (c', concat (map (\<lambda>l. roundEvents (pidNo l) True) (list_cp c)))
              \<and> size_cp c' = 0 \<and> list_cp c' = []"
  using assms
proof (induction "list_cp c" arbitrary: i c)
  case Nil
  then have z: "size_cp c = 0" by (simp add: regInv_def)
  then have "exitLoop kr i c = Some (c, [])" by (auto intro: exitLoop_stop)
  moreover have "list_cp c = []" using Nil.hyps by simp
  ultimately show ?case using z by simp
next
  case (Cons temp rest)
  let ?c1 = "c\<lparr>list_cp := rest, size_cp := size_cp c - 1\<rparr>"
  have l: "list_cp c = temp # rest" using Cons.hyps(2) by simp
  from l Cons.prems(1) have nz: "size_cp c \<noteq> 0" by (simp add: regInv_def)
  from l Cons.prems(3) have lt: "i < 50" by simp
  have k: "kr i (pidNo temp) = 0" using Cons.prems(2) by simp
  have "rest = list_cp ?c1" by simp
  moreover have "regInv ?c1" using Cons.prems(1) l by (simp add: regInv_def)
  moreover have "Suc i + length (list_cp ?c1) \<le> 50" using Cons.prems(3) l by simp
  ultimately obtain c' where
    "exitLoop kr (Suc i) ?c1
       = Some (c', concat (map (\<lambda>l. roundEvents (pidNo l) True) (list_cp ?c1)))"
    "size_cp c' = 0" "list_cp c' = []"
    using Cons.hyps(1) [of ?c1 "Suc i"] Cons.prems(2) by blast
  with exitLoop_step [OF nz lt l, of kr] k l show ?case by simp
qed

lemma kills_of_rounds:
  "length (filter isKillCall (concat (map (\<lambda>(p, ok). roundEvents p ok) rounds)))
     = length rounds"
  by (induction rounds) (auto simp: roundEvents_def)

lemma terminated_of_rounds:
  "length (filter isTerminatedNotice (concat (map (\<lambda>(p, ok). roundEvents p ok) rounds)))
     = length (filter snd rounds)"
  by (induction rounds) (auto simp: roundEvents_def errorDeletingNotice_def terminatedNotice_def)

lemma terminated_of_accepts:
  "length (filter isTerminatedNotice (concat (map (\<lambda>l. roundEvents (pidNo l) True) ls)))
     = length ls"
  by (induction ls) (auto simp: roundEvents_def errorDeletingNotice_def terminatedNotice_def)

lemma deleted_not_in_rounds:
  "Printf deletedNotice [] \<notin> set (concat (map (\<lambda>(p, ok). roundEvents p ok) rounds))"
  by (induction rounds)
    (auto simp: roundEvents_def errorDeletingNotice_def terminatedNotice_def deletedNotice_def)

text \<open>
  C8. On a consistent registry \<open>exitHandle\<close> returns after at most 50 rounds, each round
  one termination request with its notices; the registry shrinks by one record per
  accepted request, and the loop ends with an empty registry or after exactly 50 rounds.
  A round takes the first record: if its request is accepted the record is removed and
  the notice naming its identifier is printed, if not a failure notice is printed and the
  loop goes on with the registry unchanged. When every request is accepted and the
  registry holds at most 50 records (3, say), the registry is empty afterwards and there
  is one such notice per record.
\<close>

theorem shutdown_protocol:
  assumes "regInv c"
  shows "(\<exists>c' rounds.
            exitHandle kr c = Some (c', concat (map (\<lambda>(p, ok). roundEvents p ok) rounds))
            \<and> length rounds \<le> 50
            \<and> size_cp c' = size_cp c - int (length (filter snd rounds))
            \<and> (size_cp c' = 0 \<or> length rounds = 50))
         \<and> (\<forall>i temp rest. i < 50 \<and> list_cp c = temp # rest \<longrightarrow>
               exitLoop kr i c
                 = (case exitLoop kr (Suc i)
                           (if kr i (pidNo temp) = 0
                            then c\<lparr>list_cp := rest, size_cp := size_cp c - 1\<rparr> else c) of
                      None \<Rightarrow> None
                    | Some (c2, ev2) \<Rightarrow>
                        Some (c2, roundEvents (pidNo temp) (kr i (pidNo temp) = 0) @ ev2)))
         \<and> ((\<forall>j p. kr j p = 0) \<and> size_cp c \<le> 50 \<longrightarrow>
               (\<exists>c'. exitHandle kr c
                        = Some (c', concat (map (\<lambda>l. roundEvents (pidNo l) True) (list_cp c)))
                     \<and> size_cp c' = 0 \<and> list_cp c' = []
                     \<and> length (filter isTerminatedNotice
                          (concat (map (\<lambda>l. roundEvents (pidNo l) True) (list_cp c))))
                         = length (list_cp c)))"
proof (intro conjI allI impI)
  from exitLoop_regInv [OF assms, of kr 0] obtain c' ev where
    r: "exitLoop kr 0 c = Some (c', ev)"
    by blast
  from exitLoop_rounds [OF r] obtain rounds where
    h: "ev = concat (map (\<lambda>(p, ok). roundEvents p ok) rounds)"
       "0 + length rounds \<le> max 0 50"
       "size_cp c' = size_cp c - int (length (filter snd rounds))"
       "size_cp c' = 0 \<or> 50 \<le> 0 + length rounds"
    by blast
  have "length rounds \<le> 50" using h(2) by simp
  moreover have "size_cp c' = 0 \<or> length rounds = 50" using h(2,4) by auto
  ultimately show "\<exists>c' rounds.
            exitHandle kr c = Some (c', concat (map (\<lambda>(p, ok). roundEvents p ok) rounds))
            \<and> length rounds \<le> 50
            \<and> size_cp c' = size_cp c - int (length (filter snd rounds))
            \<and> (size_cp c' = 0 \<or> length rounds = 50)"
    using r h(1,3) unfolding exitHandle_def by blast
next
  fix i :: nat and temp :: Link and rest :: "Link list"
  assume a: "i < 50 \<and> list_cp c = temp # rest"
  with assms have nz: "size_cp c \<noteq> 0" by (simp add: regInv_def)
  from a have lt: "i < 50" and l: "list_cp c = temp # rest" by simp_all
  show "exitLoop kr i c
          = (case exitLoop kr (Suc i)
                    (if kr i (pidNo temp) = 0
                     then c\<lparr>list_cp := rest, size_cp := size_cp c - 1\<rparr> else c) of
               None \<Rightarrow> None
             | Some (c2, ev2) \<Rightarrow>
                 Some (c2, roundEvents (pidNo temp) (kr i (pidNo temp) = 0) @ ev2))"
    using nz lt l by (rule exitLoop_step)
next
  assume a: "(\<forall>j p. kr j p = 0) \<and> size_cp c \<le> 50"
  then have k: "\<forall>j p. kr j p = 0" by simp
  from a assms have "0 + length (list_cp c) \<le> 50" by (simp add: regInv_def)
  from exitLoop_all_accept [OF assms k this] obtain c' where
    "exitLoop kr 0 c = Some (c', concat (map (\<lambda>l. roundEvents (pidNo l) True) (list_cp c)))"
    "size_cp c' = 0" "list_cp c' = []"
    by blast
  then show "\<exists>c'. exitHandle kr c
                    = Some (c', concat (map (\<lambda>l. roundEvents (pidNo l) True) (list_cp c)))
                 \<and> size_cp c' = 0 \<and> list_cp c' = []
                 \<and> length (filter isTerminatedNotice
                      (concat (map (\<lambda>l. roundEvents (pidNo l) True) (list_cp c))))
                     = length (list_cp c)"
    unfolding exitHandle_def using terminated_of_accepts [of "list_cp c"] by blast
qed

theorem shutdown_protocol_witness:
  "regInv threeChildren \<and> size_cp threeChildren \<le> 50
   \<and> (\<exists>c'. exitHandle (\<lambda>j p. 0) threeChildren
              = Some (c', [KillCall 101 SIGTERM, Printf terminatedNotice [ArgInt 101],
                           Printf errorDeletingNotice [],
                           KillCall 102 SIGTERM, Printf terminatedNotice [ArgInt 102],
                           Printf errorDeletingNotice [],
                           KillCall 103 SIGTERM, Printf terminatedNotice [ArgInt 103],
                           Printf errorDeletingNotice []])
            \<and> size_cp c' = 0 \<and> list_cp c' = [])
   \<and> length (filter isTerminatedNotice
        [KillCall 101 SIGTERM, Printf terminatedNotice [ArgInt 101],
         Printf errorDeletingNotice [],
         KillCall 102 SIGTERM, Printf terminatedNotice [ArgInt 102],
         Printf errorDeletingNotice [],
         KillCall 103 SIGTERM, Printf terminatedNotice [ArgInt 103],
         Printf errorDeletingNotice []]) = 3"
proof -
  have r: "regInv threeChildren" by (simp add: regInv_def threeChildren_def)
  have b: "size_cp threeChildren \<le> 50" by (simp add: threeChildren_def)
  have k: "\<forall>j p. (\<lambda>(j::nat) (p::int). (0::int)) j p = 0" by simp
  from shutdown_protocol [OF r, of "\<lambda>j p. 0"] k b obtain c' where
    "exitHandle (\<lambda>j p. 0) threeChildren
       = Some (c', concat (map (\<lambda>l. roundEvents (pidNo l) True) (list_cp threeChildren)))"
    "size_cp c' = 0" "list_cp c' = []"
    "length (filter isTerminatedNotice
       (concat (map (\<lambda>l. roundEvents (pidNo l) True) (list_cp threeChildren))))
      = length (list_cp threeChildren)"
    by blast
  then show ?thesis
    using r b by (simp add: threeChildren_def roundEvents_def)
qed

text \<open>
  C10. In the shutdown loop the record taken from the head of the registry is found by
  the remove that follows an accepted termination request: with \<open>size\<close> not 0 (the loop
  test) and the list not empty, \<open>deleteChildrenPids\<close> on the head's identifier returns 1
  and cuts the head out. So a round whose request is accepted prints the \<open>terminated\<close>
  notice and then the \<open>Error deleting\<close> notice, and in no run of \<open>exitHandle\<close> that returns
  is the \<open>Sucessfully deleted\<close> notice printed: the trace is a sequence of rounds, each
  the request followed by those two notices or by the failure notice.
\<close>

theorem shutdown_remove_succeeds:
  "(\<forall>c temp rest. size_cp c \<noteq> 0 \<and> list_cp c = temp # rest \<longrightarrow>
      deleteChildrenPids c (pidNo temp)
        = (1, c\<lparr>list_cp := rest, size_cp := size_cp c - 1\<rparr>))
   \<and> (\<forall>kr i c c1 ev. size_cp c \<noteq> 0 \<and> exitRound kr i c = Some (c1, ev) \<longrightarrow>
      (\<exists>temp rest. list_cp c = temp # rest
         \<and> (if kr i (pidNo temp) = 0
             then ev = [KillCall (pidNo temp) SIGTERM,
                        Printf terminatedNotice [ArgInt (pidNo temp)],
                        Printf errorDeletingNotice []]
                  \<and> c1 = c\<lparr>list_cp := rest, size_cp := size_cp c - 1\<rparr>
             else ev = [KillCall (pidNo temp) SIGTERM, Perror ''Exit Failure: ''] \<and> c1 = c)))
   \<and> (\<forall>kr c c' ev. exitHandle kr c = Some (c', ev) \<longrightarrow>
      Printf deletedNotice [] \<notin> set ev
      \<and> (\<exists>rounds. ev = concat (map (\<lambda>(p, ok). roundEvents p ok) rounds)
            \<and> size_cp c' = size_cp c - int (length (filter snd rounds))))
   \<and> (\<forall>p. roundEvents p True
             = [KillCall p SIGTERM, Printf terminatedNotice [ArgInt p],
                Printf errorDeletingNotice []])
   \<and> deletedNotice = ''Sucessfully deleted info for this process\<newline>''
   \<and> errorDeletingNotice = ''Error deleting info for this process\<newline>''"
proof (intro conjI allI impI)
  fix c :: ChildrenPids and temp :: Link and rest :: "Link list"
  assume "size_cp c \<noteq> 0 \<and> list_cp c = temp # rest"
  then show "deleteChildrenPids c (pidNo temp)
               = (1, c\<lparr>list_cp := rest, size_cp := size_cp c - 1\<rparr>)"
    by (simp add: delete_head)
next
  fix kr :: "nat \<Rightarrow> int \<Rightarrow> int" and i :: nat and c c1 :: ChildrenPids and ev :: "event list"
  assume a: "size_cp c \<noteq> 0 \<and> exitRound kr i c = Some (c1, ev)"
  then have r: "exitRound kr i c = Some (c1, ev)" and nz: "size_cp c \<noteq> 0" by simp_all
  from exitRound_Some [OF r nz] obtain temp rest where
    h: "list_cp c = temp # rest"
       "c1 = (if kr i (pidNo temp) = 0
              then c\<lparr>list_cp := rest, size_cp := size_cp c - 1\<rparr> else c)"
       "ev = roundEvents (pidNo temp) (kr i (pidNo temp) = 0)"
    by blast
  then have "if kr i (pidNo temp) = 0
             then ev = [KillCall (pidNo temp) SIGTERM,
                        Printf terminatedNotice [ArgInt (pidNo temp)],
                        Printf errorDeletingNotice []]
                  \<and> c1 = c\<lparr>list_cp := rest, size_cp := size_cp c - 1\<rparr>
             else ev = [KillCall (pidNo temp) SIGTERM, Perror ''Exit Failure: ''] \<and> c1 = c"
    by (simp add: roundEvents_def)
  with h(1) show "\<exists>temp rest. list_cp c = temp # rest
         \<and> (if kr i (pidNo temp) = 0
             then ev = [KillCall (pidNo temp) SIGTERM,
                        Printf terminatedNotice [ArgInt (pidNo temp)],
                        Printf errorDeletingNotice []]
                  \<and> c1 = c\<lparr>list_cp := rest, size_cp := size_cp c - 1\<rparr>
             else ev = [KillCall (pidNo temp) SIGTERM, Perror ''Exit Failure: ''] \<and> c1 = c)"
    by blast
next
  fix kr :: "nat \<Rightarrow> int \<Rightarrow> int" and c c' :: ChildrenPids and ev :: "event list"
  assume "exitHandle kr c = Some (c', ev)"
  then have r: "exitLoop kr 0 c = Some (c', ev)" by (simp add: exitHandle_def)
  from exitLoop_rounds [OF r] obtain rounds where
    h: "ev = concat (map (\<lambda>(p, ok). roundEvents p ok) rounds)"
       "size_cp c' = size_cp c - int (length (filter snd rounds))"
    by blast
  show "Printf deletedNotice [] \<notin> set ev"
    unfolding h(1) by (rule deleted_not_in_rounds)
  from h show "\<exists>rounds. ev = concat (map (\<lambda>(p, ok). roundEvents p ok) rounds)
            \<and> size_cp c' = size_cp c - int (length (filter snd rounds))"
    by blast
next
  fix p :: int
  show "roundEvents p True
          = [KillCall p SIGTERM, Printf terminatedNotice [ArgInt p],
             Printf errorDeletingNotice []]"
    by (simp add: roundEvents_def)
next
  show "deletedNotice = ''Sucessfully deleted info for this process\<newline>''"
    by (simp add: deletedNotice_def)
next
  show "errorDeletingNotice = ''Error deleting info for this process\<newline>''"
    by (simp add: errorDeletingNotice_def)
qed

theorem shutdown_remove_succeeds_witness:
  "size_cp threeChildren \<noteq> 0
   \<and> deleteChildrenPids threeChildren 101
       = (1, threeChildren\<lparr>list_cp := tl (list_cp threeChildren),
                           size_cp := size_cp threeChildren - 1\<rparr>)
   \<and> exitHandle (\<lambda>j p. if j = 0 then - 1 else 0) threeChildren
       = Some (\<lparr>size_cp = 0, list_cp = []\<rparr>,
               [KillCall 101 SIGTERM, Perror ''Exit Failure: '',
                KillCall 101 SIGTERM, Printf terminatedNotice [ArgInt 101],
                Printf errorDeletingNotice [],
                KillCall 102 SIGTERM, Printf terminatedNotice [ArgInt 102],
                Printf errorDeletingNotice [],
                KillCall 103 SIGTERM, Printf terminatedNotice [ArgInt 103],
                Printf errorDeletingNotice []])
   \<and> Printf deletedNotice []
       \<notin> set [KillCall 101 SIGTERM, Perror ''Exit Failure: '',
                KillCall 101 SIGTERM, Printf terminatedNotice [ArgInt 101],
                Printf errorDeletingNotice [],
                KillCall 102 SIGTERM, Printf terminatedNotice [ArgInt 102],
                Printf errorDeletingNotice [],
                KillCall 103 SIGTERM, Printf terminatedNotice [ArgInt 103],
                Printf errorDeletingNotice []]"
proof -
  let ?h = "\<lparr>pidNo = 101, command = exampleCommand 1, builtIn = 1\<rparr>"
  let ?t = "[\<lparr>pidNo = 102, command = exampleCommand 1, builtIn = 1\<rparr>,
             \<lparr>pidNo = 103, command = exampleCommand 1, builtIn = 1\<rparr>]"
  have nz: "size_cp threeChildren \<noteq> 0" by (simp add: threeChildren_def)
  have l: "list_cp threeChildren = ?h # ?t" by (simp add: threeChildren_def)
  have run: "exitHandle (\<lambda>j p. if j = 0 then - 1 else 0) threeChildren
       = Some (\<lparr>size_cp = 0, list_cp = []\<rparr>,
               [KillCall 101 SIGTERM, Perror ''Exit Failure: '',
                KillCall 101 SIGTERM, Printf terminatedNotice [ArgInt 101],
                Printf errorDeletingNotice [],
                KillCall 102 SIGTERM, Printf terminatedNotice [ArgInt 102],
                Printf errorDeletingNotice [],
                KillCall 103 SIGTERM, Printf terminatedNotice [ArgInt 103],
                Printf errorDeletingNotice []])"
    by (simp add: exitHandle_def exitLoop.simps exitRound_def threeChildren_def
        deleteChildrenPids_def inChildrenPids_def)
  from shutdown_remove_succeeds have
    a: "\<forall>c temp rest. size_cp c \<noteq> 0 \<and> list_cp c = temp # rest \<longrightarrow>
          deleteChildrenPids c (pidNo temp)
            = (1, c\<lparr>list_cp := rest, size_cp := size_cp c - 1\<rparr>)"
    and b: "\<forall>kr c c' ev. exitHandle kr c = Some (c', ev) \<longrightarrow>
          Printf deletedNotice [] \<notin> set ev
          \<and> (\<exists>rounds. ev = concat (map (\<lambda>(p, ok). roundEvents p ok) rounds)
                \<and> size_cp c' = size_cp c - int (length (filter snd rounds)))"
    by blast+
  from a nz l have "deleteChildrenPids threeChildren (pidNo ?h)
       = (1, threeChildren\<lparr>list_cp := ?t, size_cp := size_cp threeChildren - 1\<rparr>)"
    by blast
  then have d: "deleteChildrenPids threeChildren 101
       = (1, threeChildren\<lparr>list_cp := tl (list_cp threeChildren),
                           size_cp := size_cp threeChildren - 1\<rparr>)"
    using l by simp
  from b run have "Printf deletedNotice []
       \<notin> set [KillCall 101 SIGTERM, Perror ''Exit Failure: '',
                KillCall 101 SIGTERM, Printf terminatedNotice [ArgInt 101],
                Printf errorDeletingNotice [],
                KillCall 102 SIGTERM, Printf terminatedNotice [ArgInt 102],
                Printf errorDeletingNotice [],
                KillCall 103 SIGTERM, Printf terminatedNotice [ArgInt 103],
                Printf errorDeletingNotice []]"
    by blast
  with nz d run show ?thesis by blast
qed

section \<open>Properties of a round of the control loop\<close>

lemma length_unlinkAfter:
  assumes "num \<in> set (map pidNo ls)"
  shows "Suc (length (unlinkAfter (t # ls) num)) = length (t # ls)"
  using assms
proof (induction ls arbitrary: t)
  case Nil
  then show ?case by simp
next
  case (Cons n rest)
  show ?case
  proof (cases "pidNo n = num")
    case True
    then show ?thesis by simp
  next
    case False
    with Cons.prems have "num \<in> set (map pidNo rest)" by auto
    from Cons.IH [OF this, of n] False show ?thesis by simp
  qed
qed

lemma regInv_delete_any:
  assumes "regInv c"
  shows "regInv (snd (deleteChildrenPids c num))
         \<and> size_cp (snd (deleteChildrenPids c num)) \<le> size_cp c"
proof (cases "inChildrenPids c num = 0")
  case True
  with assms show ?thesis by (simp add: deleteChildrenPids_def)
next
  case False
  show ?thesis
  proof (cases "list_cp c")
    case Nil
    with assms show ?thesis by (simp add: deleteChildrenPids_def)
  next
    case (Cons l ls)
    show ?thesis
    proof (cases "pidNo l = num")
      case True
      with assms Cons False show ?thesis
        by (simp add: deleteChildrenPids_def regInv_def)
    next
      case ne: False
      from False Cons ne have "inLinks ls num \<noteq> 0"
        by (simp add: inChildrenPids_def split: if_splits)
      then have "num \<in> set (map pidNo ls)" by (simp add: inLinks_set split: if_splits)
      from length_unlinkAfter [OF this, of l] assms Cons False ne show ?thesis
        by (simp add: deleteChildrenPids_def regInv_def)
    qed
  qed
qed

lemma unlinkAfter_last:
  assumes "pidNo x \<notin> set (map pidNo ls)" "pidNo t \<noteq> pidNo x"
  shows "unlinkAfter (t # ls @ [x]) (pidNo x) = t # ls"
  using assms
proof (induction ls arbitrary: t)
  case Nil
  then show ?case by simp
next
  case (Cons n rest)
  then have "pidNo n \<noteq> pidNo x" "pidNo x \<notin> set (map pidNo rest)" by auto
  with Cons.IH [of n] show ?case by simp
qed

lemma delete_last_added:
  assumes "regInv c" "pidNo x \<notin> set (pidsOf c)"
  shows "deleteChildrenPids (c\<lparr>list_cp := list_cp c @ [x], size_cp := size_cp c + 1\<rparr>) (pidNo x)
           = (1, c)"
proof -
  let ?c1 = "c\<lparr>list_cp := list_cp c @ [x], size_cp := size_cp c + 1\<rparr>"
  have nz: "size_cp ?c1 \<noteq> 0" using assms(1) by (simp add: regInv_def)
  have i: "inChildrenPids ?c1 (pidNo x) \<noteq> 0"
    using nz by (simp add: inChildrenPids_def inLinks_set)
  show ?thesis
  proof (cases "list_cp c")
    case Nil
    with i nz show ?thesis by (simp add: deleteChildrenPids_def)
  next
    case (Cons l ls)
    with assms(2) have ne: "pidNo l \<noteq> pidNo x" "pidNo x \<notin> set (map pidNo ls)"
      by (auto simp: pidsOf_def)
    from unlinkAfter_last [OF ne(2,1)] i Cons ne(1) show ?thesis
      by (simp add: deleteChildrenPids_def)
  qed
qed

lemma sweepNotices_plain:
  "filter isWaitBlocking (sweepNotices d) = [] \<and> filter isStartsNotice (sweepNotices d) = []"
  by (simp add: sweepNotices_def startsNotice_def)

lemma sweepRound_ok:
  assumes "regInv c" "sweepRound w p c loc = (c1, loc1, ev)"
  shows "regInv c1 \<and> size_cp c1 \<le> size_cp c
         \<and> filter isWaitBlocking ev = [] \<and> filter isStartsNotice ev = []"
proof (cases "w p")
  case (Pair currPid written)
  show ?thesis
  proof (cases "currPid = 0")
    case True
    with Pair assms show ?thesis by (auto simp: sweepRound_def)
  next
    case False
    with Pair assms(2) have
      c1: "c1 = snd (deleteChildrenPids c currPid)"
      and ev: "ev = [WaitNoHang p, Printf finishedNotice [ArgInt currPid]]
                    @ sweepNotices (dec loc1)"
      by (auto simp: sweepRound_def Let_def)
    have "filter isWaitBlocking ev = [] \<and> filter isStartsNotice ev = []"
      unfolding ev using sweepNotices_plain [of "dec loc1"]
      by (simp add: finishedNotice_def startsNotice_def)
    with regInv_delete_any [OF assms(1), of currPid] c1 show ?thesis by simp
  qed
qed

lemma sweepLoop_ok:
  assumes "regInv c" "size_cp c \<le> i + int (length ps)"
  shows "\<exists>c' loc' ev. sweepLoop w ps i c loc = Some (c', loc', ev) \<and> regInv c'
           \<and> filter isWaitBlocking ev = [] \<and> filter isStartsNotice ev = []"
  using assms
proof (induction ps arbitrary: i c loc)
  case Nil
  then show ?case by simp
next
  case (Cons p ps)
  show ?case
  proof (cases "i < size_cp c")
    case False
    with Cons.prems show ?thesis by simp
  next
    case True
    obtain c1 loc1 ev1 where r: "sweepRound w p c loc = (c1, loc1, ev1)"
      by (cases "sweepRound w p c loc") auto
    from sweepRound_ok [OF Cons.prems(1) r] have
      h: "regInv c1" "size_cp c1 \<le> size_cp c"
         "filter isWaitBlocking ev1 = []" "filter isStartsNotice ev1 = []"
      by simp_all
    have "size_cp c1 \<le> (i + 1) + int (length ps)" using h(2) Cons.prems(2) by simp
    from Cons.IH [OF h(1) this, of loc1] obtain c' loc' ev where
      "sweepLoop w ps (i + 1) c1 loc1 = Some (c', loc', ev)" "regInv c'"
      "filter isWaitBlocking ev = []" "filter isStartsNotice ev = []"
      by blast
    with True r h(3,4) show ?thesis by simp
  qed
qed

lemma backgroundCheck_ok:
  assumes "regInv (children s)"
  shows "\<exists>s' ev. backgroundCheck e s = Some (s', ev) \<and> regInv (children s')
           \<and> filter isWaitBlocking ev = [] \<and> filter isStartsNotice ev = []"
proof (cases "size_cp (children s) = 0")
  case True
  with assms show ?thesis by (simp add: backgroundCheck_def)
next
  case False
  have "size_cp (children s) \<le> 0 + int (length (snapshot (children s)))"
    using assms by (simp add: snapshot_def regInv_def pidsOf_def)
  from sweepLoop_ok [OF assms this, of "waitNoHang e" "sweepLocals e"]
  obtain c' loc' ev where
    "sweepLoop (waitNoHang e) (snapshot (children s)) 0 (children s) (sweepLocals e)
       = Some (c', loc', ev)"
    "regInv c'" "filter isWaitBlocking ev = []" "filter isStartsNotice ev = []"
    by blast
  with False assms show ?thesis
    by (simp add: backgroundCheck_def checkBGChildren_def regInv_def)
qed

lemma fgNotices_plain:
  "filter isWaitBlocking (fgNotices p d) = [] \<and> filter isStartsNotice (fgNotices p d) = []
   \<and> filter (\<lambda>x. \<not> isPerror x) (fgNotices p d) = fgNotices p d"
  by (simp add: fgNotices_def startsNotice_def fgSignalNotice_def)

lemma foregroundWait_events:
  "filter isWaitBlocking (snd (foregroundWait e s p)) = [WaitBlocking p]
   \<and> filter isStartsNotice (snd (foregroundWait e s p)) = []
   \<and> filter (\<lambda>x. \<not> isPerror x) (snd (foregroundWait e s p))
       = [Sigprocmask SIG_BLOCK (toBlock e), WaitBlocking p, Sigprocmask SIG_UNBLOCK (toBlock e)]
         @ fgNotices p (fgDecoded (fst (foregroundWait e s p)))"
  using fgNotices_plain by (simp add: foregroundWait_def Let_def)

lemma foregroundWait_state:
  "fst (foregroundWait e s p)
     = s\<lparr>children := snd (deleteChildrenPids (children s) p),
          lastFGExitMethod := (case waitBlock e p of None \<Rightarrow> - 5 | Some v \<Rightarrow> v),
          fgDecoded := decipherExitStatus (case waitBlock e p of None \<Rightarrow> - 5 | Some v \<Rightarrow> v)
                         (fgDecoded s)\<rparr>"
  by (simp add: foregroundWait_def Let_def)

lemma parentProcess_ok:
  assumes "regInv (children s)" "size_cp (children s) \<noteq> 49"
  shows "\<exists>s2 ev. parentProcess e s cmd p = Continue s2 ev \<and> regInv (children s2)
           \<and> filter isWaitBlocking ev = (if bg cmd = 0 then [WaitBlocking p] else [])
           \<and> filter isStartsNotice ev
               = (if bg cmd = 1 then [Printf startsNotice [ArgInt p]] else [])"
proof -
  let ?c1 = "(children s)\<lparr>list_cp := list_cp (children s) @ [initLink p cmd (bg cmd)],
                          size_cp := size_cp (children s) + 1\<rparr>"
  have a: "addChildrenPids (children s) p cmd (bg cmd) = Some ?c1"
    using assms(1) by (rule addChildrenPids_ok)
  have n: "size_cp ?c1 \<noteq> 50" using assms(2) by simp
  have r1: "regInv ?c1" using assms(1) by (simp add: regInv_def)
  show ?thesis
  proof (cases "bg cmd = 0")
    case True
    let ?s1 = "s\<lparr>children := ?c1\<rparr>"
    have "parentProcess e s cmd p
            = Continue (fst (foregroundWait e ?s1 p)) (snd (foregroundWait e ?s1 p))"
      using a n True by (simp add: parentProcess_def Let_def split: prod.splits)
    moreover have "regInv (children (fst (foregroundWait e ?s1 p)))"
      using regInv_delete_any [OF r1, of p] by (simp add: foregroundWait_state)
    ultimately show ?thesis
      using True foregroundWait_events [of e ?s1 p] by simp
  next
    case False
    then have "parentProcess e s cmd p
            = Continue (s\<lparr>children := ?c1\<rparr>)
                (if bg cmd = 1 then [Printf startsNotice [ArgInt p]] else [])"
      using a n by (simp add: parentProcess_def Let_def)
    with False r1 show ?thesis by simp
  qed
qed

lemma externalCommand_parent:
  assumes "forkRet e \<noteq> - 1" "forkRet e \<noteq> 0" "regInv (children s)"
    "size_cp (children s) \<noteq> 49"
  shows "\<exists>s' ev. externalCommand e s commands = Continue s' ev
           \<and> filter isWaitBlocking ev
               = (if bg (decideBackground 0 (BGAllowed s) commands) = 0
                  then [WaitBlocking (forkRet e)] else [])
           \<and> filter isStartsNotice ev
               = (if bg (decideBackground 0 (BGAllowed s) commands) = 1
                  then [Printf startsNotice [ArgInt (forkRet e)]] else [])"
proof -
  let ?cmd = "decideBackground 0 (BGAllowed s) commands"
  from parentProcess_ok [OF assms(3,4), of e ?cmd "forkRet e"] obtain s2 ev2 where
    p: "parentProcess e s ?cmd (forkRet e) = Continue s2 ev2" "regInv (children s2)"
       "filter isWaitBlocking ev2 = (if bg ?cmd = 0 then [WaitBlocking (forkRet e)] else [])"
       "filter isStartsNotice ev2
          = (if bg ?cmd = 1 then [Printf startsNotice [ArgInt (forkRet e)]] else [])"
    by blast
  from backgroundCheck_ok [OF p(2), of e] obtain s3 ev3 where
    b: "backgroundCheck e s2 = Some (s3, ev3)"
       "filter isWaitBlocking ev3 = []" "filter isStartsNotice ev3 = []"
    by blast
  have "externalCommand e s commands = Continue s3 (ev2 @ ev3)"
    using assms(1,2) p(1) b(1) by (simp add: externalCommand_def Let_def)
  with p(3,4) b(2,3) show ?thesis by simp
qed

lemma mainIteration_external:
  assumes "size_cl commands \<noteq> 0" "arrAt commands 0 = Some (Some a0)"
    "take 1 a0 \<noteq> ''#''" "procTypeOf a0 = 0"
  shows "mainIteration e s commands
           = withPrefix [Printf '': '' []] (externalCommand e s commands)"
  using assms by (simp add: mainIteration_def)

text \<open>
  C1. A round of the control loop on an external command (first word not a built-in, not a
  comment), with \<open>bg\<close> as parsed (0 or 1) and \<open>BGAllowed\<close> 0 or 1, the registry consistent
  and not one short of \<open>MAXCHILDREN\<close>. The flag used for dispatch is 1 exactly when
  \<open>bg = 1\<close> and \<open>BGAllowed = 1\<close>, and 0 otherwise. In the parent the round goes on; if the
  flag is 1 it prints the one "starts" notice naming the child and makes no blocking wait,
  and if it is 0 (in particular for \<open>bg = 1\<close> with \<open>BGAllowed = 0\<close>) it prints no such
  notice and makes exactly one blocking wait, for the child. The forked child runs the
  command with the same flag.
\<close>

theorem effective_background_flag:
  assumes "size_cl commands \<noteq> 0" "arrAt commands 0 = Some (Some a0)"
    "take 1 a0 \<noteq> ''#''" "procTypeOf a0 = 0"
    and "bg commands = 0 \<or> bg commands = 1"
    and "BGAllowed s = 0 \<or> BGAllowed s = 1"
    and "regInv (children s)" "size_cp (children s) \<noteq> 49"
    and "forkRet e \<noteq> - 1" "forkRet e \<noteq> 0"
  shows "decideBackground 0 (BGAllowed s) commands
           = commands\<lparr>bg := (if bg commands = 1 \<and> BGAllowed s = 1 then 1 else 0)\<rparr>
         \<and> (\<exists>s' ev. mainIteration e s commands = Continue s' ev
               \<and> filter isWaitBlocking ev
                   = (if bg commands = 1 \<and> BGAllowed s = 1 then []
                      else [WaitBlocking (forkRet e)])
               \<and> filter isStartsNotice ev
                   = (if bg commands = 1 \<and> BGAllowed s = 1
                      then [Printf startsNotice [ArgInt (forkRet e)]] else []))
         \<and> mainIteration (e\<lparr>forkRet := 0\<rparr>) s commands
             = ChildProcess (Printf '': '' []
                 # childProcess
                     (commands\<lparr>bg := (if bg commands = 1 \<and> BGAllowed s = 1 then 1 else 0)\<rparr>))"
proof -
  let ?eff = "if bg commands = 1 \<and> BGAllowed s = 1 then 1 else (0::int)"
  have d: "decideBackground 0 (BGAllowed s) commands = commands\<lparr>bg := ?eff\<rparr>"
    using assms(5,6) by (auto simp: decideBackground_def)
  have m: "mainIteration e' s commands
             = withPrefix [Printf '': '' []] (externalCommand e' s commands)" for e'
    using assms(1-4) by (rule mainIteration_external)
  from externalCommand_parent [OF assms(9,10,7,8), of commands] obtain s' ev where
    x: "externalCommand e s commands = Continue s' ev"
       "filter isWaitBlocking ev
          = (if bg (decideBackground 0 (BGAllowed s) commands) = 0
             then [WaitBlocking (forkRet e)] else [])"
       "filter isStartsNotice ev
          = (if bg (decideBackground 0 (BGAllowed s) commands) = 1
             then [Printf startsNotice [ArgInt (forkRet e)]] else [])"
    by blast
  have "mainIteration e s commands = Continue s' (Printf '': '' [] # ev)"
    using m [of e] x(1) by simp
  moreover have "filter isWaitBlocking (Printf '': '' [] # ev)
                   = (if bg commands = 1 \<and> BGAllowed s = 1 then []
                      else [WaitBlocking (forkRet e)])"
    using x(2) by (simp add: d)
  moreover have "filter isStartsNotice (Printf '': '' [] # ev)
                   = (if bg commands = 1 \<and> BGAllowed s = 1
                      then [Printf startsNotice [ArgInt (forkRet e)]] else [])"
    using x(3) by (simp add: d startsNotice_def)
  moreover have "mainIteration (e\<lparr>forkRet := 0\<rparr>) s commands
             = ChildProcess (Printf '': '' [] # childProcess (commands\<lparr>bg := ?eff\<rparr>))"
    using m [of "e\<lparr>forkRet := 0\<rparr>"] by (simp add: externalCommand_def Let_def d)
  ultimately show ?thesis using d by blast
qed

theorem effective_background_flag_witness:
  "size_cl (exampleCommand 1) \<noteq> 0 \<and> arrAt (exampleCommand 1) 0 = Some (Some ''sleep'')
   \<and> take 1 ''sleep'' \<noteq> ''#'' \<and> procTypeOf ''sleep'' = 0
   \<and> bg (exampleCommand 1) = 1 \<and> BGAllowed (initShell\<lparr>BGAllowed := 0\<rparr>) = 0
   \<and> regInv (children (initShell\<lparr>BGAllowed := 0\<rparr>))
   \<and> size_cp (children (initShell\<lparr>BGAllowed := 0\<rparr>)) \<noteq> 49
   \<and> forkRet exampleEnv = 4242
   \<and> decideBackground 0 0 (exampleCommand 1) = (exampleCommand 1)\<lparr>bg := 0\<rparr>
   \<and> (\<exists>s' ev. mainIteration exampleEnv (initShell\<lparr>BGAllowed := 0\<rparr>) (exampleCommand 1)
                  = Continue s' ev
         \<and> filter isWaitBlocking ev = [WaitBlocking 4242]
         \<and> filter isStartsNotice ev = [])"
proof -
  let ?s = "initShell\<lparr>BGAllowed := 0\<rparr>"
  have h: "size_cl (exampleCommand 1) \<noteq> 0" "arrAt (exampleCommand 1) 0 = Some (Some ''sleep'')"
    "take 1 ''sleep'' \<noteq> ''#''" "procTypeOf ''sleep'' = 0"
    by (simp_all add: exampleCommand_def arrAt_def procTypeOf_def)
  have b: "bg (exampleCommand 1) = 1" by (simp add: exampleCommand_def)
  then have b': "bg (exampleCommand 1) = 0 \<or> bg (exampleCommand 1) = 1" by simp
  have g: "BGAllowed ?s = 0" by simp
  then have g': "BGAllowed ?s = 0 \<or> BGAllowed ?s = 1" by simp
  have r: "regInv (children ?s)" "size_cp (children ?s) \<noteq> 49"
    by (simp_all add: initShell_def initChildrenPids_def regInv_def)
  have f: "forkRet exampleEnv = 4242" by (simp add: exampleEnv_def)
  then have f': "forkRet exampleEnv \<noteq> - 1" "forkRet exampleEnv \<noteq> 0" by simp_all
  from effective_background_flag [OF h b' g' r f'] b g f
  have "decideBackground 0 0 (exampleCommand 1) = (exampleCommand 1)\<lparr>bg := 0\<rparr>
        \<and> (\<exists>s' ev. mainIteration exampleEnv ?s (exampleCommand 1) = Continue s' ev
               \<and> filter isWaitBlocking ev = [WaitBlocking 4242]
               \<and> filter isStartsNotice ev = [])"
    by simp
  with h b g r f show ?thesis by blast
qed

text \<open>
  C5. The parent's side of a foreground dispatch (\<open>bg = 0\<close>), on a consistent registry
  that is not one short of \<open>MAXCHILDREN\<close> and does not hold the new child's identifier.
  The round goes on, and apart from failure reports its trace is, in this order: the
  \<open>sigprocmask\<close> call blocking the set \<open>toBlock\<close>, the blocking wait for the child, the
  \<open>sigprocmask\<close> call unblocking the set, then the notices; the set holds the toggle
  signal when \<open>sigaddset\<close> succeeded, and when no call fails the trace is exactly these
  events. Afterwards the registry is what it was before the dispatch and does not contain
  the child; \<open>lastFGExitMethod\<close> is the status the wait wrote, and the decoded variables
  are its decoding. For a child killed by signal \<open>sg\<close> the one notice names the child and
  \<open>sg\<close>.
\<close>

theorem foreground_wait_protocol:
  assumes "regInv (children s)" "size_cp (children s) \<noteq> 49" "bg cmd = 0"
    and "spawnPid \<notin> set (pidsOf (children s))"
  shows "\<exists>s' ev. parentProcess e s cmd spawnPid = Continue s' ev
           \<and> filter (\<lambda>x. \<not> isPerror x) ev
               = [Sigprocmask SIG_BLOCK (toBlock e), WaitBlocking spawnPid,
                  Sigprocmask SIG_UNBLOCK (toBlock e)]
                 @ fgNotices spawnPid (fgDecoded s')
           \<and> (sigaddsetRet e \<noteq> - 1 \<longrightarrow> toBlock e = [SIGTSTP])
           \<and> (sigemptysetRet e \<noteq> - 1 \<and> sigaddsetRet e \<noteq> - 1 \<and> sigblockRet e = 0
                \<and> sigunblockRet e = 0 \<longrightarrow>
                ev = [Sigprocmask SIG_BLOCK [SIGTSTP], WaitBlocking spawnPid,
                      Sigprocmask SIG_UNBLOCK [SIGTSTP]]
                     @ fgNotices spawnPid (fgDecoded s'))
           \<and> children s' = children s
           \<and> inChildrenPids (children s') spawnPid = 0
           \<and> lastFGExitMethod s' = (case waitBlock e spawnPid of None \<Rightarrow> - 5 | Some v \<Rightarrow> v)
           \<and> fgDecoded s' = decipherExitStatus (lastFGExitMethod s') (fgDecoded s)
           \<and> BGAllowed s' = BGAllowed s \<and> keepGoing s' = keepGoing s
           \<and> (\<forall>sg core. 1 \<le> sg \<and> sg \<le> 126
                 \<and> waitBlock e spawnPid = Some (signaledWith sg core) \<longrightarrow>
                 fgNotices spawnPid (fgDecoded s')
                   = [Printf fgSignalNotice [ArgInt spawnPid, ArgInt sg]])
           \<and> (\<forall>c. 0 \<le> c \<and> c \<le> 255 \<and> waitBlock e spawnPid = Some (exitedWithCode c) \<longrightarrow>
                 fgDecoded s' = \<lparr>exited = 1, exitStatus = c, signaled = 0, termSignal = 0\<rparr>
                 \<and> fgNotices spawnPid (fgDecoded s')
                     = (if c \<noteq> 0 then [Printf ''Error: %s\<newline>'' [ArgStrerror c]] else []))"
proof -
  let ?x = "initLink spawnPid cmd (bg cmd)"
  let ?c1 = "(children s)\<lparr>list_cp := list_cp (children s) @ [?x],
                          size_cp := size_cp (children s) + 1\<rparr>"
  let ?s1 = "s\<lparr>children := ?c1\<rparr>"
  let ?st = "case waitBlock e spawnPid of None \<Rightarrow> - 5 | Some v \<Rightarrow> v"
  let ?d = "decipherExitStatus ?st (fgDecoded s)"
  let ?s' = "fst (foregroundWait e ?s1 spawnPid)"
  let ?ev = "snd (foregroundWait e ?s1 spawnPid)"
  have px: "pidNo ?x = spawnPid" by (simp add: initLink_def)
  have a: "addChildrenPids (children s) spawnPid cmd (bg cmd) = Some ?c1"
    using assms(1) by (rule addChildrenPids_ok)
  have n: "size_cp ?c1 \<noteq> 50" using assms(2) by simp
  have pp: "parentProcess e s cmd spawnPid = Continue ?s' ?ev"
    using a n assms(3) by (simp add: parentProcess_def Let_def split: prod.splits)
  have del: "deleteChildrenPids ?c1 spawnPid = (1, children s)"
    using delete_last_added [OF assms(1), of ?x] assms(4) px by simp
  have st: "?s' = s\<lparr>children := children s, lastFGExitMethod := ?st, fgDecoded := ?d\<rparr>"
    by (simp add: foregroundWait_state del)
  have ch: "children ?s' = children s" by (simp add: st)
  have las: "lastFGExitMethod ?s' = ?st" by (simp add: st)
  have dc: "fgDecoded ?s' = ?d" by (simp add: st)
  have fl: "BGAllowed ?s' = BGAllowed s" "keepGoing ?s' = keepGoing s" by (simp_all add: st)
  have tr: "filter (\<lambda>x. \<not> isPerror x) ?ev
              = [Sigprocmask SIG_BLOCK (toBlock e), WaitBlocking spawnPid,
                 Sigprocmask SIG_UNBLOCK (toBlock e)] @ fgNotices spawnPid (fgDecoded ?s')"
    using foregroundWait_events [of e ?s1 spawnPid] by simp
  have tb: "sigaddsetRet e \<noteq> - 1 \<longrightarrow> toBlock e = [SIGTSTP]" by (simp add: toBlock_def)
  have ex: "sigemptysetRet e \<noteq> - 1 \<and> sigaddsetRet e \<noteq> - 1 \<and> sigblockRet e = 0
              \<and> sigunblockRet e = 0 \<longrightarrow>
            ?ev = [Sigprocmask SIG_BLOCK [SIGTSTP], WaitBlocking spawnPid,
                   Sigprocmask SIG_UNBLOCK [SIGTSTP]] @ fgNotices spawnPid (fgDecoded ?s')"
    by (simp add: foregroundWait_def Let_def toBlock_def)
  have nin: "inChildrenPids (children ?s') spawnPid = 0"
    using assms(1,4) by (simp add: ch inChildrenPids_pidsOf)
  have dq: "fgDecoded ?s' = decipherExitStatus (lastFGExitMethod ?s') (fgDecoded s)"
    by (simp add: st)
  have sgn: "fgNotices spawnPid (fgDecoded ?s')
               = [Printf fgSignalNotice [ArgInt spawnPid, ArgInt sg]]"
    if "1 \<le> sg \<and> sg \<le> 126 \<and> waitBlock e spawnPid = Some (signaledWith sg core)"
    for sg core
  proof -
    from that have "?d = \<lparr>exited = 0, exitStatus = 0, signaled = 1, termSignal = sg\<rparr>"
      by (simp add: decipher_signaled)
    then show ?thesis by (simp add: dc fgNotices_def)
  qed
  have exi: "fgDecoded ?s' = \<lparr>exited = 1, exitStatus = c, signaled = 0, termSignal = 0\<rparr>
             \<and> fgNotices spawnPid (fgDecoded ?s')
                 = (if c \<noteq> 0 then [Printf ''Error: %s\<newline>'' [ArgStrerror c]] else [])"
    if "0 \<le> c \<and> c \<le> 255 \<and> waitBlock e spawnPid = Some (exitedWithCode c)" for c
  proof -
    from that have "?d = \<lparr>exited = 1, exitStatus = c, signaled = 0, termSignal = 0\<rparr>"
      by (simp add: decipher_exited)
    then show ?thesis by (simp add: dc fgNotices_def)
  qed
  show ?thesis
    apply (rule exI [of _ ?s'])
    apply (rule exI [of _ ?ev])
    apply (intro conjI)
               apply (rule pp)
              apply (rule tr)
             apply (rule tb)
            apply (rule ex)
           apply (rule ch)
          apply (rule nin)
         apply (rule las)
        apply (rule dq)
       apply (rule fl(1))
      apply (rule fl(2))
     apply (use sgn in blast)
    apply (use exi in blast)
    done
qed

theorem foreground_wait_protocol_witness:
  "regInv (children (initShell\<lparr>children := threeChildren\<rparr>))
   \<and> size_cp (children (initShell\<lparr>children := threeChildren\<rparr>)) \<noteq> 49
   \<and> bg (exampleCommand 0) = 0
   \<and> 4242 \<notin> set (pidsOf (children (initShell\<lparr>children := threeChildren\<rparr>)))
   \<and> waitBlock (exampleEnv\<lparr>waitBlock := \<lambda>p. Some (signaledWith 2 False)\<rparr>) 4242
       = Some (signaledWith 2 False)
   \<and> (\<exists>s' ev. parentProcess (exampleEnv\<lparr>waitBlock := \<lambda>p. Some (signaledWith 2 False)\<rparr>)
                  (initShell\<lparr>children := threeChildren\<rparr>) (exampleCommand 0) 4242
                  = Continue s' ev
         \<and> ev = [Sigprocmask SIG_BLOCK [SIGTSTP], WaitBlocking 4242,
                  Sigprocmask SIG_UNBLOCK [SIGTSTP],
                  Printf fgSignalNotice [ArgInt 4242, ArgInt 2]]
         \<and> children s' = threeChildren
         \<and> inChildrenPids (children s') 4242 = 0
         \<and> lastFGExitMethod s' = signaledWith 2 False)"
proof -
  let ?e = "exampleEnv\<lparr>waitBlock := \<lambda>p. Some (signaledWith 2 False)\<rparr>"
  let ?s = "initShell\<lparr>children := threeChildren\<rparr>"
  have h: "regInv (children ?s)" "size_cp (children ?s) \<noteq> 49" "bg (exampleCommand 0) = 0"
    "4242 \<notin> set (pidsOf (children ?s))"
    by (simp_all add: regInv_def threeChildren_def exampleCommand_def pidsOf_def)
  have w: "waitBlock ?e 4242 = Some (signaledWith 2 False)" by simp
  have ok: "sigemptysetRet ?e \<noteq> - 1 \<and> sigaddsetRet ?e \<noteq> - 1 \<and> sigblockRet ?e = 0
              \<and> sigunblockRet ?e = 0"
    by (simp add: exampleEnv_def)
  have sg: "(1::int) \<le> 2 \<and> (2::int) \<le> 126 \<and> waitBlock ?e 4242 = Some (signaledWith 2 False)"
    by simp
  from foreground_wait_protocol [OF h, of ?e] obtain s' ev where
    p: "parentProcess ?e ?s (exampleCommand 0) 4242 = Continue s' ev"
    and x: "sigemptysetRet ?e \<noteq> - 1 \<and> sigaddsetRet ?e \<noteq> - 1 \<and> sigblockRet ?e = 0
              \<and> sigunblockRet ?e = 0 \<longrightarrow>
            ev = [Sigprocmask SIG_BLOCK [SIGTSTP], WaitBlocking 4242,
                  Sigprocmask SIG_UNBLOCK [SIGTSTP]] @ fgNotices 4242 (fgDecoded s')"
    and c: "children s' = children ?s" "inChildrenPids (children s') 4242 = 0"
    and l: "lastFGExitMethod s' = (case waitBlock ?e 4242 of None \<Rightarrow> - 5 | Some v \<Rightarrow> v)"
    and n: "\<forall>sg core. 1 \<le> sg \<and> sg \<le> 126 \<and> waitBlock ?e 4242 = Some (signaledWith sg core) \<longrightarrow>
              fgNotices 4242 (fgDecoded s') = [Printf fgSignalNotice [ArgInt 4242, ArgInt sg]]"
    by blast
  from n sg have "fgNotices 4242 (fgDecoded s') = [Printf fgSignalNotice [ArgInt 4242, ArgInt 2]]"
    by blast
  with x ok have "ev = [Sigprocmask SIG_BLOCK [SIGTSTP], WaitBlocking 4242,
                  Sigprocmask SIG_UNBLOCK [SIGTSTP],
                  Printf fgSignalNotice [ArgInt 4242, ArgInt 2]]"
    by simp
  moreover have "children s' = threeChildren" using c(1) by simp
  moreover have "lastFGExitMethod s' = signaledWith 2 False" using l by simp
  ultimately show ?thesis using h w p c(2) by blast
qed

section \<open>Where the code departs from its description\<close>

text \<open>
  C2. The sweep does not ask about every identifier of its snapshot. The loop bound is
  the registry's current \<open>size\<close>, which each removal decrements, while the index runs over
  the snapshot. With two registered children, 101 and 102, both finished with exit code
  0, the sweep asks about 101 only: it removes it and reports it, the bound drops to 1,
  and the loop ends at index 1. Child 102 is in the snapshot and has finished, yet it is
  not asked about, stays registered and gets no notice in this sweep.
\<close>

theorem sweep_skips_finished_child:
  "snapshot twoChildren = [101, 102]
   \<and> checkBGChildren allFinished twoChildren \<lparr>childExitMethod = 0, dec = zeroDecoded\<rparr>
       = Some (\<lparr>size_cp = 1,
                 list_cp = [\<lparr>pidNo = 102, command = exampleCommand 1, builtIn = 1\<rparr>]\<rparr>,
               \<lparr>childExitMethod = 0,
                  dec = \<lparr>exited = 1, exitStatus = 0, signaled = 0, termSignal = 0\<rparr>\<rparr>,
               [WaitNoHang 101, Printf finishedNotice [ArgInt 101],
                Printf ''exit value 0\<newline>'' []])"
proof -
  have d: "decipherExitStatus 0 zeroDecoded
             = \<lparr>exited = 1, exitStatus = 0, signaled = 0, termSignal = 0\<rparr>"
    using decipher_exited [of 0 zeroDecoded] by (simp add: exitedWithCode_mul)
  have s: "snapshot twoChildren = [101, 102]"
    by (simp add: snapshot_def twoChildren_def pidsOf_def)
  have r: "sweepRound allFinished 101 twoChildren \<lparr>childExitMethod = 0, dec = zeroDecoded\<rparr>
             = (\<lparr>size_cp = 1,
                  list_cp = [\<lparr>pidNo = 102, command = exampleCommand 1, builtIn = 1\<rparr>]\<rparr>,
                \<lparr>childExitMethod = 0,
                   dec = \<lparr>exited = 1, exitStatus = 0, signaled = 0, termSignal = 0\<rparr>\<rparr>,
                [WaitNoHang 101, Printf finishedNotice [ArgInt 101],
                 Printf ''exit value 0\<newline>'' []])"
    by (simp add: sweepRound_def allFinished_def exitedWithCode_mul d Let_def twoChildren_def
        deleteChildrenPids_def inChildrenPids_def sweepNotices_def)
  have "checkBGChildren allFinished twoChildren \<lparr>childExitMethod = 0, dec = zeroDecoded\<rparr>
          = sweepLoop allFinished [101, 102] 0 twoChildren
              \<lparr>childExitMethod = 0, dec = zeroDecoded\<rparr>"
    by (simp add: checkBGChildren_def s) (simp add: twoChildren_def)
  also have "\<dots> = Some (\<lparr>size_cp = 1,
                 list_cp = [\<lparr>pidNo = 102, command = exampleCommand 1, builtIn = 1\<rparr>]\<rparr>,
               \<lparr>childExitMethod = 0,
                  dec = \<lparr>exited = 1, exitStatus = 0, signaled = 0, termSignal = 0\<rparr>\<rparr>,
               [WaitNoHang 101, Printf finishedNotice [ArgInt 101],
                Printf ''exit value 0\<newline>'' []])"
    by (simp add: r) (simp add: twoChildren_def)
  finally show ?thesis using s by simp
qed

text \<open>
  C3. A registered record's \<open>builtIn\<close> field is not always 0. The parent registers the
  child with \<open>commands->bg\<close> as the fourth argument of \<open>addChildrenPids\<close>, so the record
  of a background command carries \<open>builtIn = 1\<close>: after the round for \<open>sleep 5 &\<close> in
  background-allowed mode, with no child finished, the registry holds the record of child
  4242 with \<open>builtIn = 1\<close>.
\<close>

theorem registered_builtIn_is_bg_flag:
  "mainIteration exampleEnv initShell (exampleCommand 1)
     = Continue
         (initShell\<lparr>children :=
            \<lparr>size_cp = 1,
               list_cp = [\<lparr>pidNo = 4242, command = exampleCommand 1, builtIn = 1\<rparr>]\<rparr>\<rparr>)
         [Printf '': '' [], Printf startsNotice [ArgInt 4242], WaitNoHang 4242]"
proof -
  let ?c1 = "\<lparr>size_cp = 1,
               list_cp = [\<lparr>pidNo = 4242, command = exampleCommand 1, builtIn = 1\<rparr>]\<rparr>"
  have a: "size_cl (exampleCommand 1) \<noteq> 0" "arrAt (exampleCommand 1) 0 = Some (Some ''sleep'')"
    "take 1 ''sleep'' \<noteq> ''#''" "procTypeOf ''sleep'' = 0"
    by (simp_all add: exampleCommand_def arrAt_def procTypeOf_def)
  have b: "bg (exampleCommand 1) = 1" by (simp add: exampleCommand_def)
  have d: "decideBackground 0 (BGAllowed initShell) (exampleCommand 1) = exampleCommand 1"
    by (simp add: decideBackground_def initShell_def)
  have p: "parentProcess exampleEnv initShell (exampleCommand 1) 4242
             = Continue (initShell\<lparr>children := ?c1\<rparr>) [Printf startsNotice [ArgInt 4242]]"
    by (simp add: parentProcess_def addChildrenPids_def initShell_def initChildrenPids_def
        initLink_def b Let_def)
  have k: "backgroundCheck exampleEnv (initShell\<lparr>children := ?c1\<rparr>)
             = Some (initShell\<lparr>children := ?c1\<rparr>, [WaitNoHang 4242])"
    by (simp add: backgroundCheck_def checkBGChildren_def snapshot_def pidsOf_def
        sweepRound_def exampleEnv_def)
  have f: "forkRet exampleEnv = 4242" by (simp add: exampleEnv_def)
  have "externalCommand exampleEnv initShell (exampleCommand 1)
          = Continue (initShell\<lparr>children := ?c1\<rparr>)
              [Printf startsNotice [ArgInt 4242], WaitNoHang 4242]"
    by (simp add: externalCommand_def Let_def d f p k)
  with mainIteration_external [OF a, of exampleEnv initShell] show ?thesis by simp
qed

end
